theory Spec2Isabelle
  imports Complex_Main
begin

section \<open>Python strings\<close>

text \<open>
  A Python \<open>str\<close> is a sequence of Unicode code points. A code point is a natural number
  here, so that the bullet glyph U+2022 is one character as it is for Python, and
  \<open>ustr\<close> gives the code points of an ASCII literal.
\<close>

type_synonym pystr = "nat list"

definition ustr :: "string \<Rightarrow> pystr" where
  "ustr s = map of_char s"

text \<open>
  \<open>str.isspace\<close> on one character, the test behind \<open>str.strip()\<close> and the regular
  expression class \<open>\s\<close>: the white space of the Unicode database.
\<close>

definition isspace :: "nat \<Rightarrow> bool" where
  "isspace c =
     ((9 \<le> c \<and> c \<le> 13) \<or> (28 \<le> c \<and> c \<le> 32) \<or> c = 133 \<or> c = 160 \<or> c = 5760
      \<or> (8192 \<le> c \<and> c \<le> 8202) \<or> c = 8232 \<or> c = 8233 \<or> c = 8239 \<or> c = 8287
      \<or> c = 12288)"

definition py_lstrip :: "pystr \<Rightarrow> pystr" where
  "py_lstrip s = dropWhile isspace s"

definition py_rstrip :: "pystr \<Rightarrow> pystr" where
  "py_rstrip s = rev (dropWhile isspace (rev s))"

definition py_strip :: "pystr \<Rightarrow> pystr" where
  "py_strip s = py_rstrip (py_lstrip s)"

text \<open>\<open>s.lstrip(chars)\<close>: drops the leading characters that occur in \<open>chars\<close>.\<close>

definition py_lstrip_chars :: "pystr \<Rightarrow> pystr \<Rightarrow> pystr" where
  "py_lstrip_chars chars s = dropWhile (\<lambda>c. c \<in> set chars) s"

text \<open>\<open>s.startswith(c)\<close> for a one-character prefix.\<close>

fun py_startswith :: "nat \<Rightarrow> pystr \<Rightarrow> bool" where
  "py_startswith c [] = False"
| "py_startswith c (x # xs) = (x = c)"

text \<open>\<open>s.split(sep)\<close> for a one-character separator: always at least one part.\<close>

fun py_split :: "nat \<Rightarrow> pystr \<Rightarrow> pystr list" where
  "py_split sep [] = [[]]"
| "py_split sep (c # cs) =
     (if c = sep then [] # py_split sep cs
      else (case py_split sep cs of
              [] \<Rightarrow> [[c]]
            | p # ps \<Rightarrow> (c # p) # ps))"

text \<open>\<open>s.split(sep, maxsplit)\<close>: at most \<open>maxsplit\<close> cuts, from the left.\<close>

fun py_split_max :: "nat \<Rightarrow> nat \<Rightarrow> pystr \<Rightarrow> pystr list" where
  "py_split_max sep 0 s = [s]"
| "py_split_max sep (Suc n) [] = [[]]"
| "py_split_max sep (Suc n) (c # cs) =
     (if c = sep then [] # py_split_max sep n cs
      else (case py_split_max sep (Suc n) cs of
              [] \<Rightarrow> [[c]]
            | p # ps \<Rightarrow> (c # p) # ps))"

text \<open>\<open>sep.join(parts)\<close>.\<close>

fun py_join :: "pystr \<Rightarrow> pystr list \<Rightarrow> pystr" where
  "py_join sep [] = []"
| "py_join sep [p] = p"
| "py_join sep (p # q # ps) = p @ sep @ py_join sep (q # ps)"

text \<open>
  \<open>s.upper()\<close> maps every character on its own to its full upper-case mapping. On ASCII
  that is the letter shift; for the other code points the mapping is a table of the
  Python runtime, not of this repository, and is the parameter \<open>U\<close> of everything that
  upper-cases (a code point may map to several, as U+FB01 does to \<open>FI\<close>).
\<close>

definition upper_char :: "(nat \<Rightarrow> pystr) \<Rightarrow> nat \<Rightarrow> pystr" where
  "upper_char U c =
     (if 97 \<le> c \<and> c \<le> 122 then [c - 32] else if c < 128 then [c] else U c)"

definition py_upper :: "(nat \<Rightarrow> pystr) \<Rightarrow> pystr \<Rightarrow> pystr" where
  "py_upper U s = concat (map (upper_char U) s)"

section \<open>The layout document\<close>

text \<open>
  The formatter hands the rendering library a list of flowables (the \<open>story\<close>): a
  \<open>Paragraph\<close> of a text in one of the eight paragraph styles of \<open>create_pdf_resume\<close>, or a
  \<open>Table\<close> of rows of cells with its column widths. Every table of the formatter gets the
  same table style (cells aligned to the top), which is left out.
\<close>

datatype style =
    name_style | title_style | contact_style | section_title_style
  | body_style | bullet_style | date_style | skill_style

datatype flowable =
    Paragraph pystr style
  | Table "flowable list list" "nat list"

datatype exn =
    IndexError | ValueError | TypeError | KeyError | AttributeError
  | JSONDecodeError | RequestException | HTTPException | LayoutError

text \<open>
  The library's constructor \<open>Paragraph(text, style)\<close> reads its text as markup and raises
  \<open>ValueError\<close> on text that its parser cannot read, such as \<open><b>x\<close> with its tag left
  open. The parser is not part of this repository. A text with neither \<open><\<close> nor \<open>&\<close> has
  no tag and no entity and is plain data for the parser; on every other text the verdict
  of the parser is the parameter \<open>M\<close> of everything that builds a paragraph.
\<close>

definition paragraph_ok :: "(pystr \<Rightarrow> bool) \<Rightarrow> pystr \<Rightarrow> bool" where
  "paragraph_ok M text = (if 60 \<in> set text \<or> 38 \<in> set text then M text else True)"

definition mk_paragraph :: "(pystr \<Rightarrow> bool) \<Rightarrow> pystr \<Rightarrow> style \<Rightarrow> exn + flowable" where
  "mk_paragraph M text st =
     (if paragraph_ok M text then Inr (Paragraph text st) else Inl ValueError)"

text \<open>
  A table of one row with two paragraph cells: the cells are built from left to right,
  and the first constructor that raises ends it.
\<close>

definition table_row ::
  "(pystr \<Rightarrow> bool) \<Rightarrow> pystr \<Rightarrow> style \<Rightarrow> pystr \<Rightarrow> style \<Rightarrow> nat list \<Rightarrow> exn + flowable"
where
  "table_row M left_text left_style right_text right_style widths =
     (case mk_paragraph M left_text left_style of
        Inl e \<Rightarrow> Inl e
      | Inr left \<Rightarrow>
          (case mk_paragraph M right_text right_style of
             Inl e \<Rightarrow> Inl e
           | Inr right \<Rightarrow> Inr (Table [[left, right]] widths)))"

section \<open>The formatter: \<open>create_pdf_resume\<close>\<close>

definition SECTION_HEADERS :: "pystr list" where
  "SECTION_HEADERS =
     [ustr ''PROFILE'', ustr ''EMPLOYMENT HISTORY'', ustr ''EDUCATION'', ustr ''SKILLS'',
      ustr ''INTERNSHIPS'', ustr ''REFERENCES'']"

definition RECORD_SECTIONS :: "pystr list" where
  "RECORD_SECTIONS = [ustr ''EMPLOYMENT HISTORY'', ustr ''EDUCATION'', ustr ''INTERNSHIPS'']"

definition BULLET :: nat where
  "BULLET = 8226"

text \<open>
  The body of the \<open>while\<close> loop, for one line under the current section: the new current
  section and the flowable appended to the story, or the exception that ends the
  function. \<open>parts[0]\<close> raises \<open>IndexError\<close> on an empty list, the unpacking
  \<open>cat, skills = ...\<close> raises \<open>ValueError\<close> unless the list has two elements, and every
  \<open>Paragraph(...)\<close> may raise \<open>ValueError\<close>.
\<close>

definition format_line ::
  "(pystr \<Rightarrow> bool) \<Rightarrow> (nat \<Rightarrow> pystr) \<Rightarrow> pystr \<Rightarrow> pystr \<Rightarrow> exn + (pystr \<times> flowable)"
where
  "format_line M U current_section line =
     (if py_upper U line \<in> set SECTION_HEADERS then
        (case mk_paragraph M (py_upper U line) section_title_style of
           Inl e \<Rightarrow> Inl e
         | Inr block \<Rightarrow> Inr (py_upper U line, block))
      else if current_section \<in> set RECORD_SECTIONS \<and> 124 \<in> set line then
        (case map py_strip (py_split 124 line) of
           [] \<Rightarrow> Inl IndexError
         | left # rest \<Rightarrow>
             (case table_row M left body_style (py_join (ustr '' | '') rest) date_style
                     [300, 180] of
                Inl e \<Rightarrow> Inl e
              | Inr block \<Rightarrow> Inr (current_section, block)))
      else if py_startswith BULLET line \<or> py_startswith 45 line then
        (case mk_paragraph M ([BULLET, 32] @ py_strip (py_lstrip_chars [BULLET, 45, 32] line))
                bullet_style of
           Inl e \<Rightarrow> Inl e
         | Inr block \<Rightarrow> Inr (current_section, block))
      else if current_section = ustr ''SKILLS'' \<and> 58 \<in> set line then
        (case py_split_max 58 1 line of
           [cat, skills] \<Rightarrow>
             (case table_row M (py_strip cat @ [58]) body_style (py_strip skills) skill_style
                     [150, 330] of
                Inl e \<Rightarrow> Inl e
              | Inr block \<Rightarrow> Inr (current_section, block))
         | _ \<Rightarrow> Inl ValueError)
      else
        (case mk_paragraph M line body_style of
           Inl e \<Rightarrow> Inl e
         | Inr block \<Rightarrow> Inr (current_section, block)))"

text \<open>
  The \<open>while i < len(lines)\<close> loop, as a recursion on the lines from index \<open>i\<close> on; the
  state is the current section and the story so far.
\<close>

fun format_lines ::
  "(pystr \<Rightarrow> bool) \<Rightarrow> (nat \<Rightarrow> pystr) \<Rightarrow> pystr \<Rightarrow> pystr list \<Rightarrow> flowable list
     \<Rightarrow> exn + (pystr \<times> flowable list)"
where
  "format_lines M U current_section [] story = Inr (current_section, story)"
| "format_lines M U current_section (line # rest) story =
     (case format_line M U current_section line of
        Inl e \<Rightarrow> Inl e
      | Inr (section', block) \<Rightarrow> format_lines M U section' rest (story @ [block]))"

text \<open>\<open>[line.strip() for line in resume_text.split('\n') if line.strip()]\<close>\<close>

definition resume_lines :: "pystr \<Rightarrow> pystr list" where
  "resume_lines resume_text =
     map py_strip (filter (\<lambda>line. py_strip line \<noteq> []) (py_split 10 resume_text))"

text \<open>
  One of the three \<open>if i < len(lines)\<close> steps of the header section: appends the line at
  index \<open>i\<close> as a paragraph in the given style and moves on, when there is such a line.
\<close>

fun header_step ::
  "(pystr \<Rightarrow> bool) \<Rightarrow> style \<Rightarrow> exn + (flowable list \<times> pystr list)
     \<Rightarrow> exn + (flowable list \<times> pystr list)"
where
  "header_step M st (Inl e) = Inl e"
| "header_step M st (Inr (story, [])) = Inr (story, [])"
| "header_step M st (Inr (story, line # rest)) =
     (case mk_paragraph M line st of
        Inl e \<Rightarrow> Inl e
      | Inr block \<Rightarrow> Inr (story @ [block], rest))"

text \<open>
  \<open>create_pdf_resume\<close> up to its call \<open>doc.build(story)\<close>: the result is the story that the
  rendering library receives, or the exception raised while the story was put together.
  What \<open>doc.build\<close> does with the story is the library's; its outcome is taken up where
  \<open>/generate-pdf\<close> uses the result.
\<close>

definition create_pdf_resume ::
  "(pystr \<Rightarrow> bool) \<Rightarrow> (nat \<Rightarrow> pystr) \<Rightarrow> pystr \<Rightarrow> exn + flowable list"
where
  "create_pdf_resume M U resume_text =
     (case header_step M contact_style
             (header_step M title_style
                (header_step M name_style (Inr ([], resume_lines resume_text)))) of
        Inl e \<Rightarrow> Inl e
      | Inr (story, rest) \<Rightarrow>
          (case format_lines M U [] rest story of
             Inl e \<Rightarrow> Inl e
           | Inr (section, story') \<Rightarrow> Inr story'))"

section \<open>The cleanup substitutions of \<open>generate_resume_text\<close>\<close>

text \<open>
  The four patterns use literals, one alternation of two literals, the classes \<open>.\<close> and
  \<open>\s\<close> under a greedy or a lazy star, an optional character and the anchors \<open>^\<close> and
  \<open>$\<close>. A pattern is the list of its items, matched from left to right by backtracking
  in the order of Python's matcher: a greedy star takes the longest run first, a lazy one
  the shortest, an alternation its left branch first.
\<close>

datatype cls = Dot | Space

datatype item =
    Bol | Eol | Lit pystr | Alt pystr pystr | Star cls | LazyStar cls | Opt nat

text \<open>\<open>.\<close> without \<open>DOTALL\<close> is every character but the newline; \<open>\s\<close> is white space.\<close>

fun in_cls :: "cls \<Rightarrow> nat \<Rightarrow> bool" where
  "in_cls Dot c = (c \<noteq> 10)"
| "in_cls Space c = isspace c"

text \<open>
  Matching one pattern character under \<open>re.IGNORECASE\<close>. All pattern characters are
  ASCII. An ASCII text character matches when both agree up to the case of a letter. Which
  characters beyond ASCII match an ASCII letter (as U+017F matches \<open>s\<close>) is again a table
  of the runtime, the parameter \<open>F\<close>; none of them matches a character that is no letter.
\<close>

definition lower_ascii :: "nat \<Rightarrow> nat" where
  "lower_ascii c = (if 65 \<le> c \<and> c \<le> 90 then c + 32 else c)"

definition ascii_letter :: "nat \<Rightarrow> bool" where
  "ascii_letter c = ((65 \<le> c \<and> c \<le> 90) \<or> (97 \<le> c \<and> c \<le> 122))"

definition ci_eq :: "(nat \<Rightarrow> nat \<Rightarrow> bool) \<Rightarrow> nat \<Rightarrow> nat \<Rightarrow> bool" where
  "ci_eq F p c =
     (if c < 128 then lower_ascii c = lower_ascii p else ascii_letter p \<and> F p c)"

text \<open>A literal at the head of the text: the text after it, when it matches.\<close>

fun lit_match :: "(nat \<Rightarrow> nat \<Rightarrow> bool) \<Rightarrow> pystr \<Rightarrow> pystr \<Rightarrow> pystr option" where
  "lit_match F [] s = Some s"
| "lit_match F (p # ps) [] = None"
| "lit_match F (p # ps) (c # cs) = (if ci_eq F p c then lit_match F ps cs else None)"

text \<open>
  \<open>rmatch F r b s\<close> matches the items \<open>r\<close> at the head of \<open>s\<close>, where \<open>b\<close> says that \<open>s\<close>
  is the whole subject (the position is 0, where alone \<open>^\<close> matches without
  \<open>MULTILINE\<close>); the result is the text after the first match in backtracking order.
  \<open>$\<close> matches at the end and before a newline that ends the subject.
\<close>

fun rmatch :: "(nat \<Rightarrow> nat \<Rightarrow> bool) \<Rightarrow> item list \<Rightarrow> bool \<Rightarrow> pystr \<Rightarrow> pystr option" where
  "rmatch F [] b s = Some s"
| "rmatch F (Bol # r) b s = (if b then rmatch F r b s else None)"
| "rmatch F (Eol # r) b s = (if s = [] \<or> s = [10] then rmatch F r b s else None)"
| "rmatch F (Lit l # r) b s =
     (case lit_match F l s of
        None \<Rightarrow> None
      | Some s' \<Rightarrow> rmatch F r (b \<and> l = []) s')"
| "rmatch F (Alt l1 l2 # r) b s =
     (case (case lit_match F l1 s of
              None \<Rightarrow> None
            | Some s' \<Rightarrow> rmatch F r (b \<and> l1 = []) s') of
        Some e \<Rightarrow> Some e
      | None \<Rightarrow>
          (case lit_match F l2 s of
             None \<Rightarrow> None
           | Some s' \<Rightarrow> rmatch F r (b \<and> l2 = []) s'))"
| "rmatch F (Opt p # r) b s =
     (case (case s of
              [] \<Rightarrow> None
            | c # cs \<Rightarrow> if ci_eq F p c then rmatch F r False cs else None) of
        Some e \<Rightarrow> Some e
      | None \<Rightarrow> rmatch F r b s)"
| "rmatch F (Star k # r) b s =
     (case (case s of
              [] \<Rightarrow> None
            | c # cs \<Rightarrow> if in_cls k c then rmatch F (Star k # r) False cs else None) of
        Some e \<Rightarrow> Some e
      | None \<Rightarrow> rmatch F r b s)"
| "rmatch F (LazyStar k # r) b s =
     (case rmatch F r b s of
        Some e \<Rightarrow> Some e
      | None \<Rightarrow>
          (case s of
             [] \<Rightarrow> None
           | c # cs \<Rightarrow> if in_cls k c then rmatch F (LazyStar k # r) False cs else None))"

text \<open>
  \<open>re.sub(pattern, '', s)\<close> from a position on: every match, found from left to right,
  is removed; where there is no match (or an empty one) the character is kept and the
  search moves on by one.
\<close>

fun re_sub_from :: "(nat \<Rightarrow> nat \<Rightarrow> bool) \<Rightarrow> item list \<Rightarrow> bool \<Rightarrow> pystr \<Rightarrow> pystr" where
  "re_sub_from F r b [] = []"
| "re_sub_from F r b (c # cs) =
     (case rmatch F r b (c # cs) of
        None \<Rightarrow> c # re_sub_from F r False cs
      | Some rest \<Rightarrow>
          if length rest < length (c # cs) then re_sub_from F r False rest
          else c # re_sub_from F r False cs)"

definition re_sub :: "(nat \<Rightarrow> nat \<Rightarrow> bool) \<Rightarrow> item list \<Rightarrow> pystr \<Rightarrow> pystr" where
  "re_sub F r s = re_sub_from F r True s"

text \<open>\<open>^(Here is|Here's).*?resume:?\s*\<close>\<close>

definition HERE_IS :: "item list" where
  "HERE_IS =
     [Bol, Alt (ustr ''Here is'') (ustr ''Here'' @ [39] @ ustr ''s''), LazyStar Dot,
      Lit (ustr ''resume''), Opt 58, Star Space]"

text \<open>\<open>^.*formatted resume.*?:\s*\<close>\<close>

definition FORMATTED_RESUME :: "item list" where
  "FORMATTED_RESUME =
     [Bol, Star Dot, Lit (ustr ''formatted resume''), LazyStar Dot, Lit [58], Star Space]"

text \<open>\<open>I hope this helps.*$\<close>\<close>

definition I_HOPE :: "item list" where
  "I_HOPE = [Lit (ustr ''I hope this helps''), Star Dot, Eol]"

text \<open>\<open>^.*?based on.*?:\s*\<close>\<close>

definition BASED_ON :: "item list" where
  "BASED_ON =
     [Bol, LazyStar Dot, Lit (ustr ''based on''), LazyStar Dot, Lit [58], Star Space]"

text \<open>
  Lines 85 to 93: the content is trimmed, the four substitutions are applied in this
  order, once each, and the result is trimmed.
\<close>

definition cleanup :: "(nat \<Rightarrow> nat \<Rightarrow> bool) \<Rightarrow> pystr \<Rightarrow> pystr" where
  "cleanup F content =
     py_strip (re_sub F BASED_ON (re_sub F I_HOPE (re_sub F FORMATTED_RESUME
       (re_sub F HERE_IS (py_strip content)))))"

section \<open>JSON values and the Python operations on them\<close>

text \<open>
  What \<open>response.json()\<close> and \<open>request.get_json()\<close> return: \<open>None\<close>, a \<open>bool\<close>, an
  \<open>int\<close>, a \<open>float\<close>, a \<open>str\<close>, a \<open>list\<close> or a \<open>dict\<close> with string keys. A \<open>dict\<close> is the list
  of its items, looked up with \<open>map_of\<close>.
\<close>

datatype json =
    JNull | JBool bool | JInt int | JFloat real | JStr pystr
  | JArr "json list" | JObj "(pystr \<times> json) list"

text \<open>The truth value of a value, as \<open>not\<close> and \<open>if\<close> take it.\<close>

fun py_truthy :: "json \<Rightarrow> bool" where
  "py_truthy JNull = False"
| "py_truthy (JBool b) = b"
| "py_truthy (JInt i) = (i \<noteq> 0)"
| "py_truthy (JFloat x) = (x \<noteq> 0)"
| "py_truthy (JStr s) = (s \<noteq> [])"
| "py_truthy (JArr xs) = (xs \<noteq> [])"
| "py_truthy (JObj kvs) = (kvs \<noteq> [])"

text \<open>\<open>k in s\<close> for two strings: \<open>k\<close> occurs in \<open>s\<close>.\<close>

fun py_substr :: "pystr \<Rightarrow> pystr \<Rightarrow> bool" where
  "py_substr k [] = (k = [])"
| "py_substr k (c # cs) = (take (length k) (c # cs) = k \<or> py_substr k cs)"

text \<open>
  \<open>k in x\<close> for a string \<open>k\<close>: a key of a \<open>dict\<close>, an element of a \<open>list\<close>, a part of a
  \<open>str\<close>; a \<open>TypeError\<close> on the values that are not iterable.
\<close>

fun py_in :: "pystr \<Rightarrow> json \<Rightarrow> exn + bool" where
  "py_in k (JObj kvs) = Inr (map_of kvs k \<noteq> None)"
| "py_in k (JArr xs) = Inr (JStr k \<in> set xs)"
| "py_in k (JStr s) = Inr (py_substr k s)"
| "py_in k JNull = Inl TypeError"
| "py_in k (JBool b) = Inl TypeError"
| "py_in k (JInt i) = Inl TypeError"
| "py_in k (JFloat x) = Inl TypeError"

text \<open>
  \<open>x[k]\<close> for a string \<open>k\<close>: the value at a key of a \<open>dict\<close> or a \<open>KeyError\<close>; a
  \<open>TypeError\<close> on every other value.
\<close>

fun py_getitem :: "json \<Rightarrow> pystr \<Rightarrow> exn + json" where
  "py_getitem (JObj kvs) k = (case map_of kvs k of None \<Rightarrow> Inl KeyError | Some v \<Rightarrow> Inr v)"
| "py_getitem JNull k = Inl TypeError"
| "py_getitem (JBool b) k = Inl TypeError"
| "py_getitem (JInt i) k = Inl TypeError"
| "py_getitem (JFloat x) k = Inl TypeError"
| "py_getitem (JStr s) k = Inl TypeError"
| "py_getitem (JArr xs) k = Inl TypeError"

text \<open>\<open>len(x)\<close>.\<close>

fun py_len :: "json \<Rightarrow> exn + nat" where
  "py_len (JObj kvs) = Inr (length kvs)"
| "py_len (JArr xs) = Inr (length xs)"
| "py_len (JStr s) = Inr (length s)"
| "py_len JNull = Inl TypeError"
| "py_len (JBool b) = Inl TypeError"
| "py_len (JInt i) = Inl TypeError"
| "py_len (JFloat x) = Inl TypeError"

text \<open>
  \<open>x[0]\<close>: the first element of a \<open>list\<close>, the first character of a \<open>str\<close>; a \<open>dict\<close> with
  string keys has no key \<open>0\<close>.
\<close>

fun py_getitem0 :: "json \<Rightarrow> exn + json" where
  "py_getitem0 (JArr []) = Inl IndexError"
| "py_getitem0 (JArr (x # xs)) = Inr x"
| "py_getitem0 (JStr []) = Inl IndexError"
| "py_getitem0 (JStr (c # cs)) = Inr (JStr [c])"
| "py_getitem0 (JObj kvs) = Inl KeyError"
| "py_getitem0 JNull = Inl TypeError"
| "py_getitem0 (JBool b) = Inl TypeError"
| "py_getitem0 (JInt i) = Inl TypeError"
| "py_getitem0 (JFloat x) = Inl TypeError"

text \<open>
  \<open>x.get(k, default)\<close>: only a \<open>dict\<close> has the method, every other value raises
  \<open>AttributeError\<close>. \<open>x.get(k)\<close> is \<open>py_get x k JNull\<close>.
\<close>

fun py_get :: "json \<Rightarrow> pystr \<Rightarrow> json \<Rightarrow> exn + json" where
  "py_get (JObj kvs) k d = Inr (case map_of kvs k of None \<Rightarrow> d | Some v \<Rightarrow> v)"
| "py_get JNull k d = Inl AttributeError"
| "py_get (JBool b) k d = Inl AttributeError"
| "py_get (JInt i) k d = Inl AttributeError"
| "py_get (JFloat x) k d = Inl AttributeError"
| "py_get (JStr s) k d = Inl AttributeError"
| "py_get (JArr xs) k d = Inl AttributeError"

text \<open>A method of \<open>str\<close> on a value: the string of a \<open>str\<close>, \<open>AttributeError\<close> otherwise.\<close>

fun py_str_method :: "json \<Rightarrow> exn + pystr" where
  "py_str_method (JStr s) = Inr s"
| "py_str_method JNull = Inl AttributeError"
| "py_str_method (JBool b) = Inl AttributeError"
| "py_str_method (JInt i) = Inl AttributeError"
| "py_str_method (JFloat x) = Inl AttributeError"
| "py_str_method (JArr xs) = Inl AttributeError"
| "py_str_method (JObj kvs) = Inl AttributeError"

section \<open>The completion client: \<open>generate_resume_text\<close>\<close>

text \<open>
  The prompt is fixed text around seven fields of the request, read with
  \<open>data.get(field, '')\<close>. It stands here as the list of these seven values; the fixed text
  and the rendering of a value in the f-string are left out.
\<close>

definition PROMPT_FIELDS :: "pystr list" where
  "PROMPT_FIELDS =
     [ustr ''name'', ustr ''phone'', ustr ''email'', ustr ''summary'', ustr ''experience'',
      ustr ''education'', ustr ''skills'']"

fun get_fields :: "json \<Rightarrow> pystr list \<Rightarrow> exn + json list" where
  "get_fields data [] = Inr []"
| "get_fields data (k # ks) =
     (case py_get data k (JStr []) of
        Inl e \<Rightarrow> Inl e
      | Inr v \<Rightarrow> (case get_fields data ks of Inl e \<Rightarrow> Inl e | Inr vs \<Rightarrow> Inr (v # vs)))"

definition create_resume_prompt :: "json \<Rightarrow> exn + json list" where
  "create_resume_prompt data = get_fields data PROMPT_FIELDS"

text \<open>
  What \<open>requests.post\<close> gives back: it raises, or returns a response with a status code
  and a body, of which the code reads only \<open>response.json()\<close> (\<open>None\<close> here when the body
  is not JSON and \<open>response.json()\<close> raises).
\<close>

datatype response = Response (status_code: nat) (json_body: "json option")

text \<open>
  Lines 84 and 85 up to the \<open>.strip()\<close>: the content of the first choice, \<open>Inr None\<close>
  when the condition of the \<open>if\<close> is false and the function falls off its end, \<open>Inl\<close> the
  exception when an operation raises.
\<close>

definition choice_content :: "json \<Rightarrow> exn + pystr option" where
  "choice_content result =
     (case py_in (ustr ''choices'') result of
        Inl e \<Rightarrow> Inl e
      | Inr False \<Rightarrow> Inr None
      | Inr True \<Rightarrow>
          (case py_getitem result (ustr ''choices'') of
             Inl e \<Rightarrow> Inl e
           | Inr choices \<Rightarrow>
               (case py_len choices of
                  Inl e \<Rightarrow> Inl e
                | Inr n \<Rightarrow>
                    if 0 < n then
                      (case py_getitem0 choices of
                         Inl e \<Rightarrow> Inl e
                       | Inr choice \<Rightarrow>
                           (case py_getitem choice (ustr ''message'') of
                              Inl e \<Rightarrow> Inl e
                            | Inr message \<Rightarrow>
                                (case py_getitem message (ustr ''content'') of
                                   Inl e \<Rightarrow> Inl e
                                 | Inr content \<Rightarrow>
                                     (case py_str_method content of
                                        Inl e \<Rightarrow> Inl e
                                      | Inr s \<Rightarrow> Inr (Some s)))))
                    else Inr None)))"

text \<open>
  The body of the \<open>try\<close>, with the calls of \<open>requests.post\<close> that it made (their prompts):
  the environment \<open>post\<close> answers a call.
\<close>

definition generate_resume_text_try ::
  "(nat \<Rightarrow> nat \<Rightarrow> bool) \<Rightarrow> (json list \<Rightarrow> exn + response) \<Rightarrow> json
     \<Rightarrow> (exn + pystr option) \<times> json list list"
where
  "generate_resume_text_try F post data =
     (case create_resume_prompt data of
        Inl e \<Rightarrow> (Inl e, [])
      | Inr prompt \<Rightarrow>
          (case post prompt of
             Inl e \<Rightarrow> (Inl e, [prompt])
           | Inr response \<Rightarrow>
               (case json_body response of
                  None \<Rightarrow> (Inl JSONDecodeError, [prompt])
                | Some result \<Rightarrow>
                    (case choice_content result of
                       Inl e \<Rightarrow> (Inl e, [prompt])
                     | Inr None \<Rightarrow> (Inr None, [prompt])
                     | Inr (Some content) \<Rightarrow> (Inr (Some (cleanup F content)), [prompt])))))"

text \<open>
  \<open>generate_resume_text\<close>: \<open>except Exception\<close> turns every exception of the body into the
  result \<open>None\<close>.
\<close>

definition generate_resume_text ::
  "(nat \<Rightarrow> nat \<Rightarrow> bool) \<Rightarrow> (json list \<Rightarrow> exn + response) \<Rightarrow> json
     \<Rightarrow> pystr option \<times> json list list"
where
  "generate_resume_text F post data =
     (case generate_resume_text_try F post data of
        (Inl e, calls) \<Rightarrow> (None, calls)
      | (Inr r, calls) \<Rightarrow> (r, calls))"

section \<open>The endpoints \<open>/generate\<close> and \<open>/generate-pdf\<close>\<close>

text \<open>
  A reply is the JSON of a resume (status 200), a JSON error with its status, or the
  file sent by \<open>/generate-pdf\<close>: the story given to the rendering library and the download
  name. The message of an error is a fixed text or \<open>str(e)\<close> of a caught exception.
\<close>

datatype message = Text pystr | StrOf exn

datatype reply =
    JsonResume pystr
  | JsonError message nat
  | SendFile "flowable list" pystr

text \<open>
  The condition \<open>not data or not data.get('name') or not data.get('email')\<close>, evaluated
  from left to right.
\<close>

definition required_missing :: "json \<Rightarrow> exn + bool" where
  "required_missing data =
     (if py_truthy data then
        (case py_get data (ustr ''name'') JNull of
           Inl e \<Rightarrow> Inl e
         | Inr name \<Rightarrow>
             if py_truthy name then
               (case py_get data (ustr ''email'') JNull of
                  Inl e \<Rightarrow> Inl e
                | Inr email \<Rightarrow> Inr (if py_truthy email then False else True))
             else Inr True)
      else Inr True)"

text \<open>
  \<open>generate_resume\<close>, given what \<open>request.get_json()\<close> did (it raised, or returned a value):
  the reply and the calls of the completion endpoint that were made.
\<close>

definition generate_resume ::
  "(nat \<Rightarrow> nat \<Rightarrow> bool) \<Rightarrow> (json list \<Rightarrow> exn + response) \<Rightarrow> exn + json
     \<Rightarrow> reply \<times> json list list"
where
  "generate_resume F post got =
     (case got of
        Inl e \<Rightarrow> (JsonError (StrOf e) 500, [])
      | Inr data \<Rightarrow>
          (case required_missing data of
             Inl e \<Rightarrow> (JsonError (StrOf e) 500, [])
           | Inr True \<Rightarrow> (JsonError (Text (ustr ''Name and email are required'')) 400, [])
           | Inr False \<Rightarrow>
               (case generate_resume_text F post data of
                  (None, calls) \<Rightarrow>
                    (JsonError (Text (ustr ''Failed to generate resume'')) 500, calls)
                | (Some resume_text, calls) \<Rightarrow>
                    if resume_text \<noteq> [] then (JsonResume resume_text, calls)
                    else (JsonError (Text (ustr ''Failed to generate resume'')) 500, calls))))"

text \<open>\<open>s.replace(' ', '_')\<close>\<close>

definition underscores :: "pystr \<Rightarrow> pystr" where
  "underscores s = map (\<lambda>c. if c = 32 then 95 else c) s"

text \<open>
  \<open>generate_pdf_resume\<close>. After the formatter has put the story together, three calls of
  libraries can still raise, and the handler answers each exception with status 500:
  \<open>doc.build(story)\<close> at the end of \<open>create_pdf_resume\<close> (a \<open>LayoutError\<close> when a flowable
  does not fit), \<open>.replace\<close> on a \<open>name\<close> that is no string, and \<open>send_file\<close>, which refuses a
  download name that cannot go into a header. Whether the story can be built and whether
  the name is accepted are the parameters \<open>build_ok\<close> and \<open>name_ok\<close>.
\<close>

definition generate_pdf_resume ::
  "(nat \<Rightarrow> nat \<Rightarrow> bool) \<Rightarrow> (nat \<Rightarrow> pystr) \<Rightarrow> (pystr \<Rightarrow> bool) \<Rightarrow> (flowable list \<Rightarrow> bool)
     \<Rightarrow> (pystr \<Rightarrow> bool) \<Rightarrow> (json list \<Rightarrow> exn + response) \<Rightarrow> exn + json
     \<Rightarrow> reply \<times> json list list"
where
  "generate_pdf_resume F U M build_ok name_ok post got =
     (case got of
        Inl e \<Rightarrow> (JsonError (StrOf e) 500, [])
      | Inr data \<Rightarrow>
          (case required_missing data of
             Inl e \<Rightarrow> (JsonError (StrOf e) 500, [])
           | Inr True \<Rightarrow> (JsonError (Text (ustr ''Name and email are required'')) 400, [])
           | Inr False \<Rightarrow>
               (case generate_resume_text F post data of
                  (None, calls) \<Rightarrow>
                    (JsonError (Text (ustr ''Failed to generate resume'')) 500, calls)
                | (Some resume_text, calls) \<Rightarrow>
                    if resume_text \<noteq> [] then
                      (case create_pdf_resume M U resume_text of
                         Inl e \<Rightarrow> (JsonError (StrOf e) 500, calls)
                       | Inr story \<Rightarrow>
                           if build_ok story then
                             (case py_get data (ustr ''name'') (JStr (ustr ''resume'')) of
                                Inl e \<Rightarrow> (JsonError (StrOf e) 500, calls)
                              | Inr name \<Rightarrow>
                                  (case py_str_method name of
                                     Inl e \<Rightarrow> (JsonError (StrOf e) 500, calls)
                                   | Inr n \<Rightarrow>
                                       if name_ok (underscores n @ ustr ''_resume.pdf'') then
                                         (SendFile story (underscores n @ ustr ''_resume.pdf''),
                                          calls)
                                       else (JsonError (StrOf ValueError) 500, calls)))
                           else (JsonError (StrOf LayoutError) 500, calls))
                    else (JsonError (Text (ustr ''Failed to generate resume'')) 500, calls))))"

section \<open>The four patterns in words\<close>

text \<open>
  A second description of what the four patterns take away, in the words of the
  specification and without the matcher, for comparison with \<open>rmatch\<close> below. A phrase
  stands at the head of a text, or occurs in it, when the characters there match the
  characters of the phrase under \<open>ci_eq\<close>, that is, up to letter case.
\<close>

definition ci_prefix :: "(nat \<Rightarrow> nat \<Rightarrow> bool) \<Rightarrow> pystr \<Rightarrow> pystr \<Rightarrow> bool" where
  "ci_prefix F phrase s =
     (length phrase \<le> length s \<and> list_all2 (ci_eq F) phrase (take (length phrase) s))"

fun ci_occurs :: "(nat \<Rightarrow> nat \<Rightarrow> bool) \<Rightarrow> pystr \<Rightarrow> pystr \<Rightarrow> bool" where
  "ci_occurs F phrase [] = ci_prefix F phrase []"
| "ci_occurs F phrase (c # cs) = (ci_prefix F phrase (c # cs) \<or> ci_occurs F phrase cs)"

text \<open>The phrase occurs in the text and a colon comes somewhere after it.\<close>

fun phrase_then_colon :: "(nat \<Rightarrow> nat \<Rightarrow> bool) \<Rightarrow> pystr \<Rightarrow> pystr \<Rightarrow> bool" where
  "phrase_then_colon F phrase [] = False"
| "phrase_then_colon F phrase (c # cs) =
     ((ci_prefix F phrase (c # cs) \<and> 58 \<in> set (drop (length phrase) (c # cs)))
      \<or> phrase_then_colon F phrase cs)"

text \<open>The text before the first newline, and the text after the last one.\<close>

definition first_line :: "pystr \<Rightarrow> pystr" where
  "first_line s = takeWhile (\<lambda>c. c \<noteq> 10) s"

definition last_line :: "pystr \<Rightarrow> pystr" where
  "last_line s = rev (takeWhile (\<lambda>c. c \<noteq> 10) (rev s))"

text \<open>
  Step 1: the text starts with \<open>Here is\<close> or \<open>Here's\<close>, and \<open>resume\<close> follows on the first
  line.
\<close>

definition here_is_preamble :: "(nat \<Rightarrow> nat \<Rightarrow> bool) \<Rightarrow> pystr \<Rightarrow> bool" where
  "here_is_preamble F t =
     ((ci_prefix F (ustr ''Here is'') t
         \<and> ci_occurs F (ustr ''resume'') (first_line (drop 7 t)))
      \<or> (ci_prefix F (ustr ''Here'' @ [39] @ ustr ''s'') t
         \<and> ci_occurs F (ustr ''resume'') (first_line (drop 6 t))))"

text \<open>Step 2: the first line has \<open>formatted resume\<close> and a colon after it.\<close>

definition formatted_resume_preamble :: "(nat \<Rightarrow> nat \<Rightarrow> bool) \<Rightarrow> pystr \<Rightarrow> bool" where
  "formatted_resume_preamble F t =
     phrase_then_colon F (ustr ''formatted resume'') (first_line t)"

text \<open>Step 3: the last line has \<open>I hope this helps\<close>.\<close>

definition hope_trailer :: "(nat \<Rightarrow> nat \<Rightarrow> bool) \<Rightarrow> pystr \<Rightarrow> bool" where
  "hope_trailer F t = ci_occurs F (ustr ''I hope this helps'') (last_line t)"

text \<open>Step 4: the first line has \<open>based on\<close> and a colon after it.\<close>

definition based_on_preamble :: "(nat \<Rightarrow> nat \<Rightarrow> bool) \<Rightarrow> pystr \<Rightarrow> bool" where
  "based_on_preamble F t = phrase_then_colon F (ustr ''based on'') (first_line t)"

text \<open>A text is already clean when none of the four steps finds anything in it.\<close>

definition already_clean :: "(nat \<Rightarrow> nat \<Rightarrow> bool) \<Rightarrow> pystr \<Rightarrow> bool" where
  "already_clean F t =
     (\<not> here_is_preamble F t \<and> \<not> formatted_resume_preamble F t
      \<and> \<not> hope_trailer F t \<and> \<not> based_on_preamble F t)"

text \<open>The least number of characters that a match of a pattern takes.\<close>

fun min_len :: "item list \<Rightarrow> nat" where
  "min_len [] = 0"
| "min_len (Lit l # r) = length l + min_len r"
| "min_len (Alt l1 l2 # r) = min (length l1) (length l2) + min_len r"
| "min_len (Bol # r) = min_len r"
| "min_len (Eol # r) = min_len r"
| "min_len (Star k # r) = min_len r"
| "min_len (LazyStar k # r) = min_len r"
| "min_len (Opt p # r) = min_len r"

section \<open>Splitting, joining and upper-casing\<close>

lemma py_split_not_Nil: "py_split sep s \<noteq> []"
  by (induction s) (auto split: list.splits)

lemma py_split_length: "length (py_split sep s) = Suc (count_list s sep)"
  by (induction s) (auto split: list.splits)

lemma count_list_pos: "x \<in> set xs \<Longrightarrow> 0 < count_list xs x"
  by (induction xs) auto

lemma py_split_two: "sep \<in> set s \<Longrightarrow> 2 \<le> length (py_split sep s)"
  using count_list_pos [of sep s] by (simp add: py_split_length)

lemma py_split_max_one:
  "sep \<in> set s \<Longrightarrow>
   py_split_max sep (Suc 0) s =
     [takeWhile (\<lambda>c. c \<noteq> sep) s, tl (dropWhile (\<lambda>c. c \<noteq> sep) s)]"
  by (induction s) (auto split: list.splits)

lemma py_split_free: "p \<in> set (py_split sep s) \<Longrightarrow> sep \<notin> set p"
  by (induction s arbitrary: p) (auto split: list.splits if_splits)

lemma py_join_split: "py_join [sep] (py_split sep s) = s"
proof (induction s)
  case Nil
  then show ?case by simp
next
  case (Cons c cs)
  obtain p ps where ps: "py_split sep cs = p # ps"
    using py_split_not_Nil [of sep cs] by (cases "py_split sep cs") auto
  show ?case
  proof (cases "c = sep")
    case True
    with ps Cons show ?thesis by simp
  next
    case False
    with ps Cons show ?thesis by (cases ps) auto
  qed
qed

lemma py_split_single: "sep \<notin> set p \<Longrightarrow> py_split sep p = [p]"
  by (induction p) auto

lemma py_split_append:
  "sep \<notin> set p \<Longrightarrow> py_split sep (p @ sep # r) = p # py_split sep r"
  by (induction p) auto

lemma py_split_join:
  "ps \<noteq> [] \<Longrightarrow> \<forall>p\<in>set ps. sep \<notin> set p \<Longrightarrow> py_split sep (py_join [sep] ps) = ps"
proof (induction ps)
  case Nil
  then show ?case by simp
next
  case (Cons p ps)
  show ?case
  proof (cases ps)
    case Nil
    with Cons.prems show ?thesis by (simp add: py_split_single)
  next
    case inner: (Cons q qs)
    with Cons.IH Cons.prems have "py_split sep (py_join [sep] ps) = ps" by simp
    with inner Cons.prems show ?thesis by (simp add: py_split_append)
  qed
qed

lemma upper_char_ascii:
  "c < 128 \<Longrightarrow> \<not> (97 \<le> c \<and> c \<le> 122) \<Longrightarrow> upper_char U c = [c]"
  by (auto simp: upper_char_def)

lemma py_upper_keeps:
  "c \<in> set s \<Longrightarrow> c < 128 \<Longrightarrow> \<not> (97 \<le> c \<and> c \<le> 122) \<Longrightarrow> c \<in> set (py_upper U s)"
  by (auto simp: py_upper_def upper_char_ascii intro!: bexI [of _ c])

lemma header_no_pipe: "h \<in> set SECTION_HEADERS \<Longrightarrow> 124 \<notin> set h"
  by (auto simp: SECTION_HEADERS_def ustr_def)

lemma header_no_colon: "h \<in> set SECTION_HEADERS \<Longrightarrow> 58 \<notin> set h"
  by (auto simp: SECTION_HEADERS_def ustr_def)

lemma pipe_line_not_header: "124 \<in> set line \<Longrightarrow> py_upper U line \<notin> set SECTION_HEADERS"
  using header_no_pipe [of "py_upper U line"] py_upper_keeps [of 124 line U] by auto

lemma colon_line_not_header: "58 \<in> set line \<Longrightarrow> py_upper U line \<notin> set SECTION_HEADERS"
  using header_no_colon [of "py_upper U line"] py_upper_keeps [of 58 line U] by auto

section \<open>Paragraphs without markup\<close>

lemma paragraph_ok_plain: "60 \<notin> set text \<Longrightarrow> 38 \<notin> set text \<Longrightarrow> paragraph_ok M text"
  by (simp add: paragraph_ok_def)



section \<open>The worked example of the formatter\<close>

lemmas str_eval =
  ustr_def py_strip_def py_lstrip_def py_rstrip_def isspace_def py_lstrip_chars_def
  BULLET_def py_upper_def upper_char_def SECTION_HEADERS_def RECORD_SECTIONS_def

lemmas par_eval = mk_paragraph_def table_row_def paragraph_ok_def

text \<open>
  The bullet glyph is not ASCII, so its upper-case mapping is whatever the table \<open>U\<close> says;
  the line is no section header all the same, by the way it ends.
\<close>

lemma bullet_line_not_header:
  "py_upper U (8226 # ustr '' Built things'') \<notin> set SECTION_HEADERS"
proof
  assume "py_upper U (8226 # ustr '' Built things'') \<in> set SECTION_HEADERS"
  then have "rev (py_upper U (8226 # ustr '' Built things'')) \<in> set (map rev SECTION_HEADERS)"
    by simp
  then show False
    by (simp add: str_eval)
qed

lemma example_lines:
  "resume_lines
     (ustr ''Jane Doe'' @ [10] @ ustr ''Software Engineer'' @ [10]
      @ ustr ''555-1234 | jane@x.com'' @ [10] @ ustr ''PROFILE'' @ [10]
      @ ustr ''Experienced engineer.'' @ [10] @ ustr ''EMPLOYMENT HISTORY'' @ [10]
      @ ustr ''Engineer | Acme Corp | 2020-2023'' @ [10] @ [8226] @ ustr '' Built things''
      @ [10] @ ustr ''SKILLS'' @ [10] @ ustr ''Languages: Python, Go'')
   = [ustr ''Jane Doe'', ustr ''Software Engineer'', ustr ''555-1234 | jane@x.com'',
      ustr ''PROFILE'', ustr ''Experienced engineer.'', ustr ''EMPLOYMENT HISTORY'',
      ustr ''Engineer | Acme Corp | 2020-2023'', 8226 # ustr '' Built things'',
      ustr ''SKILLS'', ustr ''Languages: Python, Go'']"
  by (simp add: resume_lines_def str_eval)

lemma example_headers:
  "header_step M contact_style
     (header_step M title_style
        (header_step M name_style
           (Inr ([], ustr ''Jane Doe'' # ustr ''Software Engineer''
                      # ustr ''555-1234 | jane@x.com'' # rest))))
   = Inr ([Paragraph (ustr ''Jane Doe'') name_style,
           Paragraph (ustr ''Software Engineer'') title_style,
           Paragraph (ustr ''555-1234 | jane@x.com'') contact_style], rest)"
  by (simp add: par_eval ustr_def)

lemma example_profile:
  "format_line M U cur (ustr ''PROFILE'')
   = Inr (ustr ''PROFILE'', Paragraph (ustr ''PROFILE'') section_title_style)"
  by (simp add: format_line_def str_eval par_eval)

lemma example_paragraph:
  "format_line M U (ustr ''PROFILE'') (ustr ''Experienced engineer.'')
   = Inr (ustr ''PROFILE'', Paragraph (ustr ''Experienced engineer.'') body_style)"
  by (simp add: format_line_def str_eval par_eval)

lemma example_employment:
  "format_line M U cur (ustr ''EMPLOYMENT HISTORY'')
   = Inr (ustr ''EMPLOYMENT HISTORY'',
          Paragraph (ustr ''EMPLOYMENT HISTORY'') section_title_style)"
  by (simp add: format_line_def str_eval par_eval)

lemma example_record:
  "format_line M U (ustr ''EMPLOYMENT HISTORY'') (ustr ''Engineer | Acme Corp | 2020-2023'')
   = Inr (ustr ''EMPLOYMENT HISTORY'',
          Table [[Paragraph (ustr ''Engineer'') body_style,
                  Paragraph (ustr ''Acme Corp | 2020-2023'') date_style]] [300, 180])"
  by (simp add: format_line_def str_eval par_eval)

lemma example_bullet:
  "format_line M U (ustr ''EMPLOYMENT HISTORY'') (8226 # ustr '' Built things'')
   = Inr (ustr ''EMPLOYMENT HISTORY'',
          Paragraph (8226 # ustr '' Built things'') bullet_style)"
  using bullet_line_not_header [of U]
  by (simp add: format_line_def ustr_def py_strip_def py_lstrip_def py_rstrip_def
        isspace_def py_lstrip_chars_def BULLET_def RECORD_SECTIONS_def par_eval)

lemma example_skills:
  "format_line M U cur (ustr ''SKILLS'')
   = Inr (ustr ''SKILLS'', Paragraph (ustr ''SKILLS'') section_title_style)"
  by (simp add: format_line_def str_eval par_eval)

lemma example_key_value:
  "format_line M U (ustr ''SKILLS'') (ustr ''Languages: Python, Go'')
   = Inr (ustr ''SKILLS'',
          Table [[Paragraph (ustr ''Languages:'') body_style,
                  Paragraph (ustr ''Python, Go'') skill_style]] [150, 330])"
  by (simp add: format_line_def str_eval par_eval)

text \<open>
  C1. For the cleaned text of the specification's example (ten lines, the eighth starting
  with the bullet glyph U+2022) the formatter gives the rendering library exactly these
  ten flowables, in this order: the name, title and contact paragraphs; the section header
  \<open>PROFILE\<close>; a body paragraph; the section header \<open>EMPLOYMENT HISTORY\<close>; a two-column row
  with \<open>Engineer\<close> on the left and \<open>Acme Corp | 2020-2023\<close> on the right; a bullet paragraph
  for \<open>Built things\<close> (its text carries the glyph the code puts in front); the section header
  \<open>SKILLS\<close>; a two-column row with \<open>Languages:\<close> on the left and \<open>Python, Go\<close> on the right.
  This holds whatever the upper-case table of the runtime is, and whatever the markup
  parser does on text with markup: the example has none.
\<close>

theorem example_document:
  "create_pdf_resume M U
     (ustr ''Jane Doe'' @ [10] @ ustr ''Software Engineer'' @ [10]
      @ ustr ''555-1234 | jane@x.com'' @ [10] @ ustr ''PROFILE'' @ [10]
      @ ustr ''Experienced engineer.'' @ [10] @ ustr ''EMPLOYMENT HISTORY'' @ [10]
      @ ustr ''Engineer | Acme Corp | 2020-2023'' @ [10] @ [8226] @ ustr '' Built things''
      @ [10] @ ustr ''SKILLS'' @ [10] @ ustr ''Languages: Python, Go'')
   = Inr [Paragraph (ustr ''Jane Doe'') name_style,
          Paragraph (ustr ''Software Engineer'') title_style,
          Paragraph (ustr ''555-1234 | jane@x.com'') contact_style,
          Paragraph (ustr ''PROFILE'') section_title_style,
          Paragraph (ustr ''Experienced engineer.'') body_style,
          Paragraph (ustr ''EMPLOYMENT HISTORY'') section_title_style,
          Table [[Paragraph (ustr ''Engineer'') body_style,
                  Paragraph (ustr ''Acme Corp | 2020-2023'') date_style]] [300, 180],
          Paragraph (8226 # ustr '' Built things'') bullet_style,
          Paragraph (ustr ''SKILLS'') section_title_style,
          Table [[Paragraph (ustr ''Languages:'') body_style,
                  Paragraph (ustr ''Python, Go'') skill_style]] [150, 330]]"
  unfolding create_pdf_resume_def example_lines example_headers
  by (simp add: example_profile example_paragraph example_employment example_record
        example_bullet example_skills example_key_value)

section \<open>What can go wrong in the line scan\<close>

lemma mk_paragraph_Inl: "mk_paragraph M t st = Inl e \<Longrightarrow> e = ValueError \<and> \<not> paragraph_ok M t"
  by (auto simp: mk_paragraph_def split: if_splits)

lemma mk_paragraph_ok: "paragraph_ok M t \<Longrightarrow> mk_paragraph M t st = Inr (Paragraph t st)"
  by (simp add: mk_paragraph_def)

lemma mk_paragraph_bad: "\<not> paragraph_ok M t \<Longrightarrow> mk_paragraph M t st = Inl ValueError"
  by (simp add: mk_paragraph_def)

lemma table_row_eq:
  "table_row M l ls r rs w =
     (if paragraph_ok M l \<and> paragraph_ok M r
      then Inr (Table [[Paragraph l ls, Paragraph r rs]] w) else Inl ValueError)"
  by (simp add: table_row_def mk_paragraph_def)

lemma format_line_Inl:
  "format_line M U cur line = Inl e \<Longrightarrow> e = ValueError \<and> (\<exists>t. \<not> paragraph_ok M t)"
proof -
  assume a: "format_line M U cur line = Inl e"
  have s: "map py_strip (py_split 124 line) \<noteq> []"
    by (simp add: py_split_not_Nil)
  have c: "58 \<in> set line \<Longrightarrow> \<exists>c s. py_split_max 58 1 line = [c, s]"
    by (simp add: py_split_max_one)
  show ?thesis
    using a s c
    by (auto simp: format_line_def table_row_eq mk_paragraph_def
          split: if_splits list.splits sum.splits)
qed


lemma format_lines_Inr:
  "format_lines M U cur ls story = Inr (cur', story') \<Longrightarrow>
   \<exists>blocks. story' = story @ blocks \<and> length blocks = length ls"
proof (induction ls arbitrary: cur story)
  case Nil
  then show ?case by simp
next
  case (Cons line rest)
  from Cons.prems obtain c b where step: "format_line M U cur line = Inr (c, b)"
    and rest: "format_lines M U c rest (story @ [b]) = Inr (cur', story')"
    by (auto split: sum.splits)
  from Cons.IH [OF rest] obtain bs where "story' = (story @ [b]) @ bs" "length bs = length rest"
    by blast
  then have "story' = story @ (b # bs) \<and> length (b # bs) = length (line # rest)"
    by simp
  then show ?case by blast
qed

lemma format_lines_Inl:
  "format_lines M U cur ls story = Inl e \<Longrightarrow> e = ValueError \<and> (\<exists>t. \<not> paragraph_ok M t)"
proof (induction ls arbitrary: cur story)
  case Nil
  then show ?case by simp
next
  case (Cons line rest)
  show ?case
  proof (cases "format_line M U cur line")
    case (Inl e')
    with Cons.prems have "e' = e" by simp
    with format_line_Inl [OF Inl] show ?thesis by simp
  next
    case (Inr p)
    obtain c b where "p = (c, b)" by (cases p)
    with Inr Cons.prems have "format_lines M U c rest (story @ [b]) = Inl e" by simp
    then show ?thesis by (rule Cons.IH)
  qed
qed

lemma format_lines_accepting:
  "\<forall>t. paragraph_ok M t \<Longrightarrow> \<exists>section' story'. format_lines M U cur ls story = Inr (section', story')"
proof (cases "format_lines M U cur ls story")
  case (Inl e)
  assume "\<forall>t. paragraph_ok M t"
  with format_lines_Inl [OF Inl] show ?thesis by blast
next
  case (Inr p)
  then show ?thesis by (cases p) simp
qed

lemma header_steps:
  "header_step M contact_style
     (header_step M title_style (header_step M name_style (Inr ([], ls))))
   = (if list_all (paragraph_ok M) (take 3 ls)
      then Inr (map2 Paragraph (take 3 ls) [name_style, title_style, contact_style], drop 3 ls)
      else Inl ValueError)"
proof (cases ls)
  case Nil
  then show ?thesis by simp
next
  case l1: (Cons a as)
  show ?thesis
  proof (cases as)
    case Nil
    with l1 show ?thesis by (simp add: mk_paragraph_def)
  next
    case l2: (Cons b bs)
    show ?thesis
    proof (cases bs)
      case Nil
      with l1 l2 show ?thesis by (simp add: mk_paragraph_def)
    next
      case (Cons c cs)
      with l1 l2 show ?thesis by (simp add: numeral_3_eq_3 mk_paragraph_def)
    qed
  qed
qed

lemma create_pdf_resume_scan:
  "create_pdf_resume M U resume_text =
     (if list_all (paragraph_ok M) (take 3 (resume_lines resume_text)) then
        (case format_lines M U [] (drop 3 (resume_lines resume_text))
                (map2 Paragraph (take 3 (resume_lines resume_text))
                   [name_style, title_style, contact_style]) of
           Inl e \<Rightarrow> Inl e
         | Inr (section, story) \<Rightarrow> Inr story)
      else Inl ValueError)"
  by (simp add: create_pdf_resume_def header_steps)

lemma create_pdf_resume_Inr:
  "create_pdf_resume M U resume_text = Inr story \<Longrightarrow>
   \<exists>body. story = map2 Paragraph (take 3 (resume_lines resume_text))
                     [name_style, title_style, contact_style] @ body
          \<and> length body = length (resume_lines resume_text) - 3"
proof -
  assume a: "create_pdf_resume M U resume_text = Inr story"
  then obtain c where
    "format_lines M U [] (drop 3 (resume_lines resume_text))
        (map2 Paragraph (take 3 (resume_lines resume_text))
           [name_style, title_style, contact_style]) = Inr (c, story)"
    by (auto simp: create_pdf_resume_scan split: if_splits sum.splits)
  from format_lines_Inr [OF this] show ?thesis by simp
qed



lemma format_line_section:
  "format_line M U cur line = Inr (cur', b) \<Longrightarrow>
   cur' = (if py_upper U line \<in> set SECTION_HEADERS then py_upper U line else cur)"
  by (auto simp: format_line_def split: list.splits if_splits sum.splits)

lemma format_lines_same_section:
  "\<forall>l\<in>set ls. py_upper U l \<notin> set SECTION_HEADERS \<Longrightarrow>
   (\<exists>bs. format_lines M U cur ls story = Inr (cur, story @ bs)
         \<and> list_all2 (\<lambda>l b. format_line M U cur l = Inr (cur, b)) ls bs)
   \<or> (format_lines M U cur ls story = Inl ValueError
       \<and> (\<exists>l\<in>set ls. format_line M U cur l = Inl ValueError))"
proof (induction ls arbitrary: story)
  case Nil
  then show ?case by simp
next
  case (Cons line rest)
  show ?case
  proof (cases "format_line M U cur line")
    case (Inl e)
    with format_line_Inl [OF Inl] show ?thesis by simp
  next
    case (Inr p)
    obtain c b where p: "p = (c, b)" by (cases p)
    with Inr Cons.prems have c: "c = cur"
      using format_line_section [of M U cur line c b] by simp
    from Cons.prems have "\<forall>l\<in>set rest. py_upper U l \<notin> set SECTION_HEADERS"
      by simp
    from Cons.IH [OF this, of "story @ [b]"] show ?thesis
    proof
      assume "\<exists>bs. format_lines M U cur rest (story @ [b]) = Inr (cur, (story @ [b]) @ bs)
         \<and> list_all2 (\<lambda>l b. format_line M U cur l = Inr (cur, b)) rest bs"
      then obtain bs where "format_lines M U cur rest (story @ [b]) = Inr (cur, (story @ [b]) @ bs)"
        and "list_all2 (\<lambda>l b. format_line M U cur l = Inr (cur, b)) rest bs"
        by blast
      with Inr p c have "format_lines M U cur (line # rest) story = Inr (cur, story @ (b # bs))
         \<and> list_all2 (\<lambda>l b. format_line M U cur l = Inr (cur, b)) (line # rest) (b # bs)"
        by simp
      then show ?thesis by blast
    next
      assume "format_lines M U cur rest (story @ [b]) = Inl ValueError
       \<and> (\<exists>l\<in>set rest. format_line M U cur l = Inl ValueError)"
      with Inr p c show ?thesis by auto
    qed
  qed
qed

lemma plain_sections:
  "cur \<in> set [ustr ''SKILLS'', ustr ''PROFILE'', ustr ''REFERENCES'', []] \<Longrightarrow>
   cur \<notin> set RECORD_SECTIONS"
  by (auto simp: RECORD_SECTIONS_def ustr_def)

section \<open>Letter case in section headers\<close>




section \<open>Claims about the formatter\<close>



text \<open>
  C5, as stated, fails: under \<open>SKILLS\<close> a line with a pipe and a colon becomes a key/value
  row, and under \<open>EDUCATION\<close> a line with a colon and a pipe becomes a record row.
\<close>

theorem pipe_line_in_skills_counterexample:
  "124 \<in> set (ustr ''Languages: Python | Go'')
   \<and> format_line (\<lambda>t. False) (\<lambda>c. [c]) (ustr ''SKILLS'') (ustr ''Languages: Python | Go'')
     = Inr (ustr ''SKILLS'',
            Table [[Paragraph (ustr ''Languages:'') body_style,
                    Paragraph (ustr ''Python | Go'') skill_style]] [150, 330])
   \<and> 58 \<in> set (ustr ''Engineer | Acme: Corp'')
   \<and> format_line (\<lambda>t. False) (\<lambda>c. [c]) (ustr ''EDUCATION'') (ustr ''Engineer | Acme: Corp'')
     = Inr (ustr ''EDUCATION'',
            Table [[Paragraph (ustr ''Engineer'') body_style,
                    Paragraph (ustr ''Acme: Corp'') date_style]] [300, 180])"
  by (simp add: format_line_def str_eval par_eval)

text \<open>
  C5, amended. A line with a pipe, scanned while the current section is \<open>SKILLS\<close>,
  \<open>PROFILE\<close>, \<open>REFERENCES\<close> or empty, takes the plain-paragraph branch when it does not
  start with a bullet character and is not a line with a colon under \<open>SKILLS\<close>. A line with
  a colon, scanned while the current section is not \<open>SKILLS\<close>, takes the plain-paragraph
  branch when it does not start with a bullet character and is not a line with a pipe
  under one of the three record sections. (Such lines are never section headers.) In that
  branch the whole line goes to the \<open>Paragraph\<close> constructor in the body style: the block is
  that paragraph and the current section stays, unless the constructor rejects the markup
  of the line and the formatter ends with its \<open>ValueError\<close>. No two-column row is built.
\<close>

theorem fall_through_plain:
  "(124 \<in> set line
      \<and> cur \<in> set [ustr ''SKILLS'', ustr ''PROFILE'', ustr ''REFERENCES'', []]
      \<and> \<not> py_startswith BULLET line \<and> \<not> py_startswith 45 line
      \<and> \<not> (cur = ustr ''SKILLS'' \<and> 58 \<in> set line)
      \<longrightarrow> format_line M U cur line
            = (if paragraph_ok M line then Inr (cur, Paragraph line body_style)
               else Inl ValueError))
   \<and> (58 \<in> set line \<and> cur \<noteq> ustr ''SKILLS''
      \<and> \<not> py_startswith BULLET line \<and> \<not> py_startswith 45 line
      \<and> \<not> (cur \<in> set RECORD_SECTIONS \<and> 124 \<in> set line)
      \<longrightarrow> format_line M U cur line
            = (if paragraph_ok M line then Inr (cur, Paragraph line body_style)
               else Inl ValueError))"
proof (intro conjI impI)
  assume a: "124 \<in> set line
      \<and> cur \<in> set [ustr ''SKILLS'', ustr ''PROFILE'', ustr ''REFERENCES'', []]
      \<and> \<not> py_startswith BULLET line \<and> \<not> py_startswith 45 line
      \<and> \<not> (cur = ustr ''SKILLS'' \<and> 58 \<in> set line)"
  then have "cur \<notin> set RECORD_SECTIONS"
    using plain_sections by blast
  moreover from a have "py_upper U line \<notin> set SECTION_HEADERS"
    using pipe_line_not_header by blast
  ultimately show "format_line M U cur line
            = (if paragraph_ok M line then Inr (cur, Paragraph line body_style)
               else Inl ValueError)"
    using a by (auto simp: format_line_def mk_paragraph_def)
next
  assume a: "58 \<in> set line \<and> cur \<noteq> ustr ''SKILLS''
      \<and> \<not> py_startswith BULLET line \<and> \<not> py_startswith 45 line
      \<and> \<not> (cur \<in> set RECORD_SECTIONS \<and> 124 \<in> set line)"
  then have "py_upper U line \<notin> set SECTION_HEADERS"
    using colon_line_not_header by blast
  then show "format_line M U cur line
            = (if paragraph_ok M line then Inr (cur, Paragraph line body_style)
               else Inl ValueError)"
    using a by (auto simp: format_line_def mk_paragraph_def)
qed

theorem fall_through_plain_witness:
  "format_line (\<lambda>t. False) (\<lambda>c. [c]) [] (ustr ''555-1234 | jane@x.com'')
     = Inr ([], Paragraph (ustr ''555-1234 | jane@x.com'') body_style)
   \<and> format_line (\<lambda>t. False) (\<lambda>c. [c]) (ustr ''PROFILE'') (ustr ''Note: remote'')
     = Inr (ustr ''PROFILE'', Paragraph (ustr ''Note: remote'') body_style)
   \<and> format_line (\<lambda>t. False) (\<lambda>c. [c]) (ustr ''PROFILE'') (ustr ''<b>x | y'')
     = Inl ValueError"
proof -
  have a: "124 \<in> set (ustr ''555-1234 | jane@x.com'')
      \<and> [] \<in> set [ustr ''SKILLS'', ustr ''PROFILE'', ustr ''REFERENCES'', []]
      \<and> \<not> py_startswith BULLET (ustr ''555-1234 | jane@x.com'')
      \<and> \<not> py_startswith 45 (ustr ''555-1234 | jane@x.com'')
      \<and> \<not> ([] = ustr ''SKILLS'' \<and> 58 \<in> set (ustr ''555-1234 | jane@x.com''))"
    by (simp add: ustr_def BULLET_def)
  have b: "58 \<in> set (ustr ''Note: remote'') \<and> ustr ''PROFILE'' \<noteq> ustr ''SKILLS''
      \<and> \<not> py_startswith BULLET (ustr ''Note: remote'')
      \<and> \<not> py_startswith 45 (ustr ''Note: remote'')
      \<and> \<not> (ustr ''PROFILE'' \<in> set RECORD_SECTIONS \<and> 124 \<in> set (ustr ''Note: remote''))"
    by (simp add: ustr_def BULLET_def RECORD_SECTIONS_def)
  have c: "124 \<in> set (ustr ''<b>x | y'')
      \<and> ustr ''PROFILE'' \<in> set [ustr ''SKILLS'', ustr ''PROFILE'', ustr ''REFERENCES'', []]
      \<and> \<not> py_startswith BULLET (ustr ''<b>x | y'')
      \<and> \<not> py_startswith 45 (ustr ''<b>x | y'')
      \<and> \<not> (ustr ''PROFILE'' = ustr ''SKILLS'' \<and> 58 \<in> set (ustr ''<b>x | y''))"
    by (simp add: ustr_def BULLET_def)
  have ok: "paragraph_ok (\<lambda>t. False) (ustr ''555-1234 | jane@x.com'')"
    "paragraph_ok (\<lambda>t. False) (ustr ''Note: remote'')"
    "\<not> paragraph_ok (\<lambda>t. False) (ustr ''<b>x | y'')"
    by (simp_all add: paragraph_ok_def ustr_def)
  show ?thesis
    using a b c ok
      fall_through_plain [of "ustr ''555-1234 | jane@x.com''" "[]" "\<lambda>t. False" "\<lambda>c. [c]"]
      fall_through_plain [of "ustr ''Note: remote''" "ustr ''PROFILE''" "\<lambda>t. False" "\<lambda>c. [c]"]
      fall_through_plain [of "ustr ''<b>x | y''" "ustr ''PROFILE''" "\<lambda>t. False" "\<lambda>c. [c]"]
    by simp
qed

text \<open>
  C6, as stated, fails: under \<open>EDUCATION\<close> the line \<open><b>a | b\<close> has a pipe, but its first
  part has a tag left open; the \<open>Paragraph\<close> constructor of the left cell raises
  \<open>ValueError\<close> and no row is made (here with a parser that rejects the text, as the
  library's does).
\<close>

theorem record_row_counterexample:
  "124 \<in> set (ustr ''<b>a | b'') \<and> ustr ''EDUCATION'' \<in> set RECORD_SECTIONS
   \<and> format_line (\<lambda>t. False) (\<lambda>c. [c]) (ustr ''EDUCATION'') (ustr ''<b>a | b'') = Inl ValueError"
  by (simp add: format_line_def str_eval par_eval)

text \<open>
  C6, amended. Every line with a pipe, scanned while the current section is
  \<open>EMPLOYMENT HISTORY\<close>, \<open>EDUCATION\<close> or \<open>INTERNSHIPS\<close>, is cut at its pipes into two or more
  parts; the text of the left cell is the first part, trimmed, and the text of the right
  cell is the other parts, each trimmed and joined again with \<open>" | "\<close>, so every pipe after
  the first stays in the right cell with a space on either side. When the \<open>Paragraph\<close>
  constructor accepts both texts the block is the row of these two cells; when it rejects
  one of them the formatter ends with its \<open>ValueError\<close>.
\<close>

theorem record_row:
  "124 \<in> set line \<Longrightarrow> cur \<in> set RECORD_SECTIONS \<Longrightarrow>
   \<exists>left rest. rest \<noteq> [] \<and> (\<forall>p\<in>set (left # rest). 124 \<notin> set p)
      \<and> line = py_join [124] (left # rest)
      \<and> format_line M U cur line
          = (if paragraph_ok M (py_strip left)
                \<and> paragraph_ok M (py_join (ustr '' | '') (map py_strip rest))
             then Inr (cur, Table [[Paragraph (py_strip left) body_style,
                                    Paragraph (py_join (ustr '' | '') (map py_strip rest))
                                      date_style]]
                              [300, 180])
             else Inl ValueError)"
proof -
  assume pipe: "124 \<in> set line" and cur: "cur \<in> set RECORD_SECTIONS"
  obtain left rest where parts: "py_split 124 line = left # rest"
    using py_split_not_Nil [of 124 line] by (cases "py_split 124 line") auto
  have "rest \<noteq> []"
    using py_split_two [OF pipe] parts by auto
  moreover have "\<forall>p\<in>set (left # rest). 124 \<notin> set p"
    using py_split_free [of _ 124 line] parts by auto
  moreover have "line = py_join [124] (left # rest)"
    using py_join_split [of 124 line] parts by simp
  moreover have "format_line M U cur line
          = (if paragraph_ok M (py_strip left)
                \<and> paragraph_ok M (py_join (ustr '' | '') (map py_strip rest))
             then Inr (cur, Table [[Paragraph (py_strip left) body_style,
                                    Paragraph (py_join (ustr '' | '') (map py_strip rest))
                                      date_style]]
                              [300, 180])
             else Inl ValueError)"
    using pipe cur parts pipe_line_not_header [OF pipe, of U]
    by (simp add: format_line_def table_row_eq)
  ultimately show ?thesis by blast
qed

theorem record_row_witness:
  "format_line (\<lambda>t. False) (\<lambda>c. [c]) (ustr ''EDUCATION'') (ustr ''BSc | MIT | 2015 | 2019'')
   = Inr (ustr ''EDUCATION'',
          Table [[Paragraph (ustr ''BSc'') body_style,
                  Paragraph (ustr ''MIT | 2015 | 2019'') date_style]] [300, 180])"
proof -
  have pipe: "124 \<in> set (ustr ''BSc | MIT | 2015 | 2019'')"
    by (simp add: ustr_def)
  have cur: "ustr ''EDUCATION'' \<in> set RECORD_SECTIONS"
    by (simp add: RECORD_SECTIONS_def)
  obtain left rest where free: "\<forall>p\<in>set (left # rest). 124 \<notin> set p"
    and line: "ustr ''BSc | MIT | 2015 | 2019'' = py_join [124] (left # rest)"
    and row: "format_line (\<lambda>t. False) (\<lambda>c. [c]) (ustr ''EDUCATION'')
                (ustr ''BSc | MIT | 2015 | 2019'')
          = (if paragraph_ok (\<lambda>t. False) (py_strip left)
                \<and> paragraph_ok (\<lambda>t. False) (py_join (ustr '' | '') (map py_strip rest))
             then Inr (ustr ''EDUCATION'',
                       Table [[Paragraph (py_strip left) body_style,
                               Paragraph (py_join (ustr '' | '') (map py_strip rest))
                                 date_style]]
                         [300, 180])
             else Inl ValueError)"
    using record_row [OF pipe cur, of "\<lambda>t. False" "\<lambda>c. [c]"] by blast
  have "py_split 124 (py_join [124] (left # rest)) = left # rest"
    using py_split_join [of "left # rest" 124] free by simp
  with line have "left # rest = py_split 124 (ustr ''BSc | MIT | 2015 | 2019'')"
    by simp
  then have "left = ustr ''BSc '' \<and> rest = [ustr '' MIT '', ustr '' 2015 '', ustr '' 2019'']"
    by (simp add: ustr_def)
  with row show ?thesis
    by (simp add: str_eval paragraph_ok_def)
qed

lemma resume_lines_join:
  "ls \<noteq> [] \<Longrightarrow> \<forall>l\<in>set ls. 10 \<notin> set l \<Longrightarrow>
   resume_lines (py_join [10] ls) = map py_strip (filter (\<lambda>l. py_strip l \<noteq> []) ls)"
  by (simp add: resume_lines_def py_split_join)

text \<open>
  C7, as stated, fails: the one line \<open></i>\<close> is taken as the name, but the \<open>Paragraph\<close>
  constructor raises \<open>ValueError\<close> on it and no header block is made (here with a parser
  that rejects the text, as the library's does).
\<close>

theorem header_lines_counterexample:
  "resume_lines (ustr ''</i>'') = [ustr ''</i>'']
   \<and> create_pdf_resume (\<lambda>t. False) (\<lambda>c. [c]) (ustr ''</i>'') = Inl ValueError"
  by (simp add: create_pdf_resume_def resume_lines_def str_eval par_eval)

text \<open>
  C7, amended. The lines of a text are its pieces between newlines, without the pieces
  that are empty after trimming, each trimmed, in their order. The first three of them, or
  all of them when there are fewer, go to the \<open>Paragraph\<close> constructor in the name, the
  title and the contact style by their position alone, whatever they say (a section name
  too). When the constructor rejects one of them the formatter ends with its \<open>ValueError\<close>.
  Otherwise every story the formatter returns begins with exactly these header paragraphs
  and goes on with one block for every line after the third; with at most three lines the
  story is the header paragraphs of the lines there are and nothing else, so the empty
  text gives the empty story.
\<close>

theorem header_lines:
  "(ls \<noteq> [] \<and> (\<forall>l\<in>set ls. 10 \<notin> set l) \<longrightarrow>
      resume_lines (py_join [10] ls) = map py_strip (filter (\<lambda>l. py_strip l \<noteq> []) ls))
   \<and> (create_pdf_resume M U resume_text = Inr story \<longrightarrow>
        (\<exists>body. story = map2 Paragraph (take 3 (resume_lines resume_text))
                          [name_style, title_style, contact_style] @ body
               \<and> length body = length (resume_lines resume_text) - 3))
   \<and> (length (resume_lines resume_text) \<le> 3
        \<and> list_all (paragraph_ok M) (resume_lines resume_text) \<longrightarrow>
        create_pdf_resume M U resume_text
          = Inr (map2 Paragraph (resume_lines resume_text)
                   [name_style, title_style, contact_style]))
   \<and> (\<not> list_all (paragraph_ok M) (take 3 (resume_lines resume_text)) \<longrightarrow>
        create_pdf_resume M U resume_text = Inl ValueError)
   \<and> create_pdf_resume M U [] = Inr []
   \<and> create_pdf_resume M U (ustr ''  SKILLS '' @ [10, 10, 32, 9, 10] @ ustr ''- x | y: z'')
       = Inr [Paragraph (ustr ''SKILLS'') name_style,
              Paragraph (ustr ''- x | y: z'') title_style]"
proof (intro conjI impI)
  show "resume_lines (py_join [10] ls) = map py_strip (filter (\<lambda>l. py_strip l \<noteq> []) ls)"
    if "ls \<noteq> [] \<and> (\<forall>l\<in>set ls. 10 \<notin> set l)"
    using that by (simp add: resume_lines_join)
  show "\<exists>body. story = map2 Paragraph (take 3 (resume_lines resume_text))
                          [name_style, title_style, contact_style] @ body
               \<and> length body = length (resume_lines resume_text) - 3"
    if "create_pdf_resume M U resume_text = Inr story"
    using that by (rule create_pdf_resume_Inr)
  show "create_pdf_resume M U resume_text
          = Inr (map2 Paragraph (resume_lines resume_text)
                   [name_style, title_style, contact_style])"
    if "length (resume_lines resume_text) \<le> 3
        \<and> list_all (paragraph_ok M) (resume_lines resume_text)"
    using that by (simp add: create_pdf_resume_scan)
  show "create_pdf_resume M U resume_text = Inl ValueError"
    if "\<not> list_all (paragraph_ok M) (take 3 (resume_lines resume_text))"
    using that by (simp add: create_pdf_resume_scan)
  show "create_pdf_resume M U [] = Inr []"
    by (simp add: create_pdf_resume_def resume_lines_def py_strip_def py_lstrip_def
          py_rstrip_def)
  show "create_pdf_resume M U (ustr ''  SKILLS '' @ [10, 10, 32, 9, 10] @ ustr ''- x | y: z'')
       = Inr [Paragraph (ustr ''SKILLS'') name_style,
              Paragraph (ustr ''- x | y: z'') title_style]"
    by (simp add: create_pdf_resume_def resume_lines_def str_eval par_eval)
qed

theorem header_lines_witness:
  "resume_lines (py_join [10] [ustr '' EDUCATION'', ustr '' '', ustr ''x '', ustr ''y'', ustr ''z''])
     = [ustr ''EDUCATION'', ustr ''x'', ustr ''y'', ustr ''z'']
   \<and> create_pdf_resume (\<lambda>t. False) (\<lambda>c. [c]) (ustr ''EDUCATION'' @ [10] @ ustr ''x'')
     = Inr [Paragraph (ustr ''EDUCATION'') name_style, Paragraph (ustr ''x'') title_style]
   \<and> create_pdf_resume (\<lambda>t. False) (\<lambda>c. [c]) (ustr ''a'' @ [10] @ ustr ''<b'') = Inl ValueError"
proof -
  let ?ls = "[ustr '' EDUCATION'', ustr '' '', ustr ''x '', ustr ''y'', ustr ''z'']"
  let ?two = "ustr ''EDUCATION'' @ [10] @ ustr ''x''"
  let ?bad = "ustr ''a'' @ [10] @ ustr ''<b''"
  have 1: "?ls \<noteq> [] \<and> (\<forall>l\<in>set ?ls. 10 \<notin> set l)"
    by (simp add: ustr_def)
  have 2: "map py_strip (filter (\<lambda>l. py_strip l \<noteq> []) ?ls)
     = [ustr ''EDUCATION'', ustr ''x'', ustr ''y'', ustr ''z'']"
    by (simp add: str_eval)
  have l3: "resume_lines ?two = [ustr ''EDUCATION'', ustr ''x'']"
    by (simp add: resume_lines_def str_eval)
  have 3: "length (resume_lines ?two) \<le> 3
        \<and> list_all (paragraph_ok (\<lambda>t. False)) (resume_lines ?two)"
    unfolding l3 by (simp add: paragraph_ok_def ustr_def)
  have l4: "resume_lines ?bad = [ustr ''a'', ustr ''<b'']"
    by (simp add: resume_lines_def str_eval)
  have 4: "\<not> list_all (paragraph_ok (\<lambda>t. False)) (take 3 (resume_lines ?bad))"
    unfolding l4 by (simp add: paragraph_ok_def ustr_def)
  have "resume_lines (py_join [10] ?ls) = map py_strip (filter (\<lambda>l. py_strip l \<noteq> []) ?ls)"
    using header_lines [of ?ls "\<lambda>t. False" "\<lambda>c. [c]" ?two "[]"] 1 by blast
  then have a: "resume_lines (py_join [10] ?ls)
      = [ustr ''EDUCATION'', ustr ''x'', ustr ''y'', ustr ''z'']"
    by (simp only: 2)
  have "create_pdf_resume (\<lambda>t. False) (\<lambda>c. [c]) ?two
     = Inr (map2 Paragraph (resume_lines ?two) [name_style, title_style, contact_style])"
    using header_lines [of ?ls "\<lambda>t. False" "\<lambda>c. [c]" ?two "[]"] 3 by blast
  then have b: "create_pdf_resume (\<lambda>t. False) (\<lambda>c. [c]) ?two
     = Inr [Paragraph (ustr ''EDUCATION'') name_style, Paragraph (ustr ''x'') title_style]"
    unfolding l3 by simp
  have c: "create_pdf_resume (\<lambda>t. False) (\<lambda>c. [c]) ?bad = Inl ValueError"
    using header_lines [of ?ls "\<lambda>t. False" "\<lambda>c. [c]" ?bad "[]"] 4 by blast
  from a b c show ?thesis by blast
qed

text \<open>
  C9. The current section is the empty string when the scan begins, after the header
  paragraphs. One step of the scan changes it only at a section header, to the upper-cased
  line; every other line leaves it as it is. So over lines with no section header among
  them the current section stays the same and every line is classified under it: either
  each of these lines gives its block under this section, or the scan ends at the
  \<open>ValueError\<close> of a line classified under this section.
\<close>

theorem current_section_state:
  "(format_line M U cur line = Inr (cur', block) \<longrightarrow>
      cur' = (if py_upper U line \<in> set SECTION_HEADERS then py_upper U line else cur))
   \<and> ((\<forall>l\<in>set ls. py_upper U l \<notin> set SECTION_HEADERS) \<longrightarrow>
        (\<exists>blocks. format_lines M U cur ls story = Inr (cur, story @ blocks)
           \<and> list_all2 (\<lambda>l b. format_line M U cur l = Inr (cur, b)) ls blocks)
        \<or> (format_lines M U cur ls story = Inl ValueError
            \<and> (\<exists>l\<in>set ls. format_line M U cur l = Inl ValueError)))
   \<and> create_pdf_resume M U resume_text =
       (if list_all (paragraph_ok M) (take 3 (resume_lines resume_text)) then
          (case format_lines M U [] (drop 3 (resume_lines resume_text))
                  (map2 Paragraph (take 3 (resume_lines resume_text))
                     [name_style, title_style, contact_style]) of
             Inl e \<Rightarrow> Inl e
           | Inr (section, story') \<Rightarrow> Inr story')
        else Inl ValueError)"
  using format_line_section [of M U cur line cur' block]
    format_lines_same_section [of ls U M cur story]
    create_pdf_resume_scan [of M U resume_text]
  by blast

theorem current_section_state_witness:
  "format_line (\<lambda>t. False) (\<lambda>c. [c]) (ustr ''EDUCATION'') (ustr ''skills'')
     = Inr (ustr ''SKILLS'', Paragraph (ustr ''SKILLS'') section_title_style)
   \<and> ustr ''SKILLS''
     = (if py_upper (\<lambda>c. [c]) (ustr ''skills'') \<in> set SECTION_HEADERS
        then py_upper (\<lambda>c. [c]) (ustr ''skills'') else ustr ''EDUCATION'')
   \<and> (\<exists>blocks.
         format_lines (\<lambda>t. False) (\<lambda>c. [c]) (ustr ''EDUCATION'')
             [ustr ''BSc | MIT'', ustr ''- thesis''] []
           = Inr (ustr ''EDUCATION'', [] @ blocks)
         \<and> list_all2
             (\<lambda>l b. format_line (\<lambda>t. False) (\<lambda>c. [c]) (ustr ''EDUCATION'') l
                      = Inr (ustr ''EDUCATION'', b))
             [ustr ''BSc | MIT'', ustr ''- thesis''] blocks)"
proof -
  have a: "format_line (\<lambda>t. False) (\<lambda>c. [c]) (ustr ''EDUCATION'') (ustr ''skills'')
     = Inr (ustr ''SKILLS'', Paragraph (ustr ''SKILLS'') section_title_style)"
    by (simp add: format_line_def str_eval par_eval)
  have b: "\<forall>l\<in>set [ustr ''BSc | MIT'', ustr ''- thesis''].
             py_upper (\<lambda>c. [c]) l \<notin> set SECTION_HEADERS"
    by (simp add: str_eval)
  have c: "format_lines (\<lambda>t. False) (\<lambda>c. [c]) (ustr ''EDUCATION'')
             [ustr ''BSc | MIT'', ustr ''- thesis''] [] \<noteq> Inl ValueError"
    by (simp add: format_line_def str_eval par_eval)
  show ?thesis
    using a b c
      current_section_state [of "\<lambda>t. False" "\<lambda>c. [c]" "ustr ''EDUCATION''" "ustr ''skills''"
        "ustr ''SKILLS''" "Paragraph (ustr ''SKILLS'') section_title_style"
        "[ustr ''BSc | MIT'', ustr ''- thesis'']" "[]" "[]"]
    by blast
qed




section \<open>Trimming\<close>

lemma strip_head:
  "t = [] \<or> \<not> P (hd t) \<Longrightarrow>
   rev (dropWhile P (rev t)) = [] \<or> \<not> P (hd (rev (dropWhile P (rev t))))"
proof (induction t rule: rev_induct)
  case Nil
  then show ?case by simp
next
  case (snoc x xs)
  then show ?case
    by (cases xs) (auto split: if_splits)
qed

lemma dropWhile_fix: "xs = [] \<or> \<not> P (hd xs) \<Longrightarrow> dropWhile P xs = xs"
  by (cases xs) auto

lemma py_strip_idem: "py_strip (py_strip s) = py_strip s"
proof -
  let ?t = "dropWhile isspace s"
  let ?u = "rev (dropWhile isspace (rev ?t))"
  have t: "?t = [] \<or> \<not> isspace (hd ?t)"
    using hd_dropWhile [of isspace s] by blast
  have u: "?u = [] \<or> \<not> isspace (hd ?u)"
    using strip_head [of "dropWhile isspace s" isspace] t by blast
  have 1: "dropWhile isspace ?u = ?u"
    using dropWhile_fix [of "rev (dropWhile isspace (rev (dropWhile isspace s)))" isspace] u
    by blast
  have "dropWhile isspace (rev ?u) = rev ?u"
    by (simp add: dropWhile_idem)
  with 1 show ?thesis
    by (simp add: py_strip_def py_lstrip_def py_rstrip_def)
qed

lemma py_strip_length: "length (py_strip s) \<le> length s"
proof -
  have "length (dropWhile isspace (rev (dropWhile isspace s))) \<le> length (rev (dropWhile isspace s))"
    by (rule length_dropWhile_le)
  moreover have "length (dropWhile isspace s) \<le> length s"
    by (rule length_dropWhile_le)
  ultimately show ?thesis
    by (simp add: py_strip_def py_lstrip_def py_rstrip_def)
qed

lemma py_strip_last: "py_strip s = [] \<or> last (py_strip s) \<noteq> 10"
proof -
  let ?y = "dropWhile isspace (rev (dropWhile isspace s))"
  have "?y = [] \<or> \<not> isspace (hd ?y)"
    using hd_dropWhile [of isspace "rev (dropWhile isspace s)"] by blast
  moreover have "isspace 10"
    by (simp add: isspace_def)
  moreover have "py_strip s = rev ?y"
    by (simp add: py_strip_def py_lstrip_def py_rstrip_def)
  ultimately show ?thesis
    by (cases ?y) (auto simp: last_rev)
qed

section \<open>The matcher\<close>

lemma lit_match_eq:
  "lit_match F l s = (if ci_prefix F l s then Some (drop (length l) s) else None)"
  by (induction F l s rule: lit_match.induct) (auto simp: ci_prefix_def)

text \<open>The two stars, unfolded one step at a time.\<close>

lemma star_Nil: "rmatch F (Star k # r) b [] = rmatch F r b []"
  using rmatch.simps(7) [of F k r b "[]"] by (simp del: rmatch.simps)

lemma star_Cons:
  "rmatch F (Star k # r) b (c # cs) =
     (if in_cls k c
      then (case rmatch F (Star k # r) False cs of
              Some e \<Rightarrow> Some e
            | None \<Rightarrow> rmatch F r b (c # cs))
      else rmatch F r b (c # cs))"
  using rmatch.simps(7) [of F k r b "c # cs"] by (simp del: rmatch.simps)

lemma lazy_Nil: "rmatch F (LazyStar k # r) b [] = rmatch F r b []"
  using rmatch.simps(8) [of F k r b "[]"] by (simp del: rmatch.simps split: option.splits)

lemma lazy_Cons:
  "rmatch F (LazyStar k # r) b (c # cs) =
     (case rmatch F r b (c # cs) of
        Some e \<Rightarrow> Some e
      | None \<Rightarrow> if in_cls k c then rmatch F (LazyStar k # r) False cs else None)"
  using rmatch.simps(8) [of F k r b "c # cs"]
  by (simp del: rmatch.simps split: option.splits)

lemma rmatch_flag: "Bol \<notin> set r \<Longrightarrow> rmatch F r b s = rmatch F r False s"
proof (induction r arbitrary: b s)
  case Nil
  then show ?case by simp
next
  case (Cons x r)
  then have IH: "\<And>b s. rmatch F r b s = rmatch F r False s" by simp
  show ?case
  proof (cases x)
    case Bol
    with Cons.prems show ?thesis by simp
  next
    case Eol
    with IH [of b s] show ?thesis by simp
  next
    case (Lit l)
    have "rmatch F (Lit l # r) c s
        = (case lit_match F l s of None \<Rightarrow> None | Some s' \<Rightarrow> rmatch F r False s')" for c
      by (simp add: IH [of "c \<and> l = []"] split: option.splits)
    from this [of b] this [of False] Lit show ?thesis by simp
  next
    case (Alt l1 l2)
    have "rmatch F (Alt l1 l2 # r) c s
        = (case (case lit_match F l1 s of None \<Rightarrow> None | Some s' \<Rightarrow> rmatch F r False s') of
             Some e \<Rightarrow> Some e
           | None \<Rightarrow>
               (case lit_match F l2 s of None \<Rightarrow> None | Some s' \<Rightarrow> rmatch F r False s'))" for c
      by (simp add: IH [of "c \<and> l1 = []"] IH [of "c \<and> l2 = []"] split: option.splits)
    from this [of b] this [of False] Alt show ?thesis by simp
  next
    case (Star k)
    show ?thesis
      using IH [of b s] unfolding Star by (cases s) (simp_all add: star_Nil star_Cons del: rmatch.simps split: option.splits)
  next
    case (LazyStar k)
    show ?thesis
      using IH [of b s] unfolding LazyStar by (cases s) (simp_all add: lazy_Nil lazy_Cons del: rmatch.simps split: option.splits)
  next
    case (Opt p)
    with IH [of b s] show ?thesis by (simp split: option.splits list.splits)
  qed
qed

lemma rmatch_len: "rmatch F r b s = Some rest \<Longrightarrow> length rest + min_len r \<le> length s"
proof (induction r arbitrary: b s rest)
  case Nil
  then show ?case by simp
next
  case (Cons x r)
  note IH = Cons.IH
  show ?case
  proof (cases x)
    case Bol
    with Cons.prems IH show ?thesis by (auto split: if_splits)
  next
    case Eol
    with Cons.prems IH show ?thesis by (auto split: if_splits)
  next
    case (Lit l)
    with Cons.prems obtain "ci_prefix F l s"
      and "rmatch F r (b \<and> l = []) (drop (length l) s) = Some rest"
      by (auto simp: lit_match_eq split: if_splits)
    with IH [of "b \<and> l = []" "drop (length l) s" rest] Lit show ?thesis
      by (auto simp: ci_prefix_def)
  next
    case (Alt l1 l2)
    with Cons.prems have
      "(ci_prefix F l1 s \<and> rmatch F r (b \<and> l1 = []) (drop (length l1) s) = Some rest)
       \<or> (ci_prefix F l2 s \<and> rmatch F r (b \<and> l2 = []) (drop (length l2) s) = Some rest)"
      by (auto simp: lit_match_eq split: if_splits option.splits)
    with IH [of "b \<and> l1 = []" "drop (length l1) s" rest]
      IH [of "b \<and> l2 = []" "drop (length l2) s" rest] Alt
    show ?thesis
      by (auto simp: ci_prefix_def)
  next
    case (Opt p)
    with Cons.prems have
      "rmatch F r b s = Some rest \<or> (\<exists>c cs. s = c # cs \<and> rmatch F r False cs = Some rest)"
      by (auto split: option.splits list.splits if_splits)
    with IH [of b s rest] Opt show ?thesis
      using IH by fastforce
  next
    case (Star k)
    have "rmatch F (Star k # r) b s = Some rest \<Longrightarrow> length rest + min_len r \<le> length s"
    proof (induction s arbitrary: b)
      case Nil
      with IH [of b "[]" rest] show ?case by (simp add: star_Nil del: rmatch.simps)
    next
      case (Cons c cs)
      then have "rmatch F (Star k # r) False cs = Some rest \<or> rmatch F r b (c # cs) = Some rest"
        by (auto simp add: star_Cons simp del: rmatch.simps split: if_splits option.splits)
      with Cons.IH [of False] IH [of b "c # cs" rest] show ?case by auto
    qed
    with Cons.prems Star show ?thesis by simp
  next
    case (LazyStar k)
    have "rmatch F (LazyStar k # r) b s = Some rest \<Longrightarrow> length rest + min_len r \<le> length s"
    proof (induction s arbitrary: b)
      case Nil
      with IH [of b "[]" rest] show ?case by (simp add: lazy_Nil del: rmatch.simps)
    next
      case (Cons c cs)
      then have "rmatch F (LazyStar k # r) False cs = Some rest \<or> rmatch F r b (c # cs) = Some rest"
        by (auto simp add: lazy_Cons simp del: rmatch.simps split: if_splits option.splits)
      with Cons.IH [of False] IH [of b "c # cs" rest] show ?case by auto
    qed
    with Cons.prems LazyStar show ?thesis by simp
  qed
qed

lemma star_matches:
  "Bol \<notin> set r \<Longrightarrow>
   (rmatch F (Star k # r) b s \<noteq> None) =
     (rmatch F r False s \<noteq> None
      \<or> (\<exists>c cs. s = c # cs \<and> in_cls k c \<and> rmatch F (Star k # r) False cs \<noteq> None))"
  using rmatch_flag [of r F b s]
  by (cases s) (auto simp add: star_Nil star_Cons simp del: rmatch.simps split: option.splits)

lemma lazy_matches:
  "Bol \<notin> set r \<Longrightarrow>
   (rmatch F (LazyStar k # r) b s \<noteq> None) =
     (rmatch F r False s \<noteq> None
      \<or> (\<exists>c cs. s = c # cs \<and> in_cls k c \<and> rmatch F (LazyStar k # r) False cs \<noteq> None))"
  using rmatch_flag [of r F b s]
  by (cases s) (auto simp add: lazy_Nil lazy_Cons simp del: rmatch.simps split: option.splits)

lemma lit_matches:
  "Bol \<notin> set r \<Longrightarrow>
   (rmatch F (Lit l # r) b s \<noteq> None) =
     (ci_prefix F l s \<and> rmatch F r False (drop (length l) s) \<noteq> None)"
  using rmatch_flag [of r F "b \<and> l = []" "drop (length l) s"]
  by (simp add: lit_match_eq)

lemma space_tail: "rmatch F [Star Space] b s \<noteq> None"
  by (induction s arbitrary: b) (simp_all add: star_Nil star_Cons del: rmatch.simps(7) split: option.splits)

lemma colon_tail: "rmatch F [Opt 58, Star Space] b s \<noteq> None"
  using space_tail [of F b s] space_tail [of F False "tl s"]
  by (cases s) (auto simp del: rmatch.simps(7) split: option.splits)

lemma ci_eq_colon: "ci_eq F 58 c = (c = 58)"
  by (auto simp: ci_eq_def lower_ascii_def ascii_letter_def)

lemma ci_prefix_colon: "ci_prefix F [58] s = (\<exists>cs. s = 58 # cs)"
  by (cases s) (auto simp: ci_prefix_def ci_eq_colon)

lemma colon_space_tail: "(rmatch F [Lit [58], Star Space] b s \<noteq> None) = (\<exists>cs. s = 58 # cs)"
  using space_tail [of F False "drop 1 s"] lit_matches [of "[Star Space]" F "[58]" b s]
  by (simp add: ci_prefix_colon del: rmatch.simps)

section \<open>Phrases and lines\<close>

lemma ci_eq_newline: "p \<noteq> 10 \<Longrightarrow> \<not> ci_eq F p 10"
  by (auto simp: ci_eq_def lower_ascii_def split: if_splits)

lemma ci_prefix_Nil: "ci_prefix F l [] = (l = [])"
  by (auto simp: ci_prefix_def)

lemma ci_prefix_Cons:
  "ci_prefix F (p # ps) (c # cs) = (ci_eq F p c \<and> ci_prefix F ps cs)"
  by (auto simp: ci_prefix_def)

lemma ci_prefix_Cons_Nil: "\<not> ci_prefix F (p # ps) []"
  by (simp add: ci_prefix_def)

lemma ci_prefix_empty: "ci_prefix F [] s"
  by (simp add: ci_prefix_def)

lemma first_line_Cons: "first_line (c # cs) = (if c = 10 then [] else c # first_line cs)"
  by (simp add: first_line_def)

lemma first_line_Nil: "first_line [] = []"
  by (simp add: first_line_def)

text \<open>A phrase without a newline stands at the head of a text exactly when it stands at
  the head of its first line, and the first line goes on behind it.\<close>

lemma ci_prefix_first_line:
  "10 \<notin> set l \<Longrightarrow> ci_prefix F l (first_line s) = ci_prefix F l s"
proof (induction l arbitrary: s)
  case Nil
  then show ?case by (simp add: ci_prefix_empty)
next
  case (Cons p ps)
  show ?case
  proof (cases s)
    case Nil
    then show ?thesis by (simp add: first_line_Nil)
  next
    case (Cons c cs)
    with Cons.IH [of cs] Cons.prems ci_eq_newline [of p F] show ?thesis
      by (auto simp: first_line_Cons ci_prefix_Cons ci_prefix_Cons_Nil)
  qed
qed

lemma first_line_drop:
  "10 \<notin> set l \<Longrightarrow> ci_prefix F l s \<Longrightarrow>
   drop (length l) (first_line s) = first_line (drop (length l) s)"
proof (induction l arbitrary: s)
  case Nil
  then show ?case by simp
next
  case (Cons p ps)
  show ?case
  proof (cases s)
    case Nil
    with Cons.prems show ?thesis by (simp add: ci_prefix_Cons_Nil)
  next
    case c: (Cons c cs)
    with Cons.prems ci_eq_newline [of p F] have "c \<noteq> 10" and "ci_prefix F ps cs"
      by (auto simp: ci_prefix_Cons)
    with Cons.IH [of cs] Cons.prems c show ?thesis
      by (simp add: first_line_Cons)
  qed
qed

lemma alt_matches:
  "Bol \<notin> set r \<Longrightarrow>
   (rmatch F (Alt l1 l2 # r) b s \<noteq> None) =
     ((ci_prefix F l1 s \<and> rmatch F r False (drop (length l1) s) \<noteq> None)
      \<or> (ci_prefix F l2 s \<and> rmatch F r False (drop (length l2) s) \<noteq> None))"
  using rmatch_flag [of r F "b \<and> l1 = []" "drop (length l1) s"]
    rmatch_flag [of r F "b \<and> l2 = []" "drop (length l2) s"]
  by (auto simp: lit_match_eq split: option.splits)

section \<open>The patterns, item by item\<close>

lemma colon_on_line:
  "(rmatch F [LazyStar Dot, Lit [58], Star Space] b s \<noteq> None) = (58 \<in> set (first_line s))"
proof (induction s arbitrary: b)
  case Nil
  show ?case
    using lazy_matches [of "[Lit [58], Star Space]" F Dot b "[]"]
      colon_space_tail [of F False "[]"]
    by (simp add: first_line_Nil del: rmatch.simps)
next
  case (Cons c cs)
  show ?case
    using lazy_matches [of "[Lit [58], Star Space]" F Dot b "c # cs"]
      colon_space_tail [of F False "c # cs"] Cons [of False]
    by (auto simp add: first_line_Cons simp del: rmatch.simps)
qed

lemma phrase_on_line:
  "10 \<notin> set l \<Longrightarrow> l \<noteq> [] \<Longrightarrow>
   (rmatch F [LazyStar Dot, Lit l, Opt 58, Star Space] b s \<noteq> None)
     = ci_occurs F l (first_line s)"
proof (induction s arbitrary: b)
  case Nil
  then show ?case
    using lazy_matches [of "[Lit l, Opt 58, Star Space]" F Dot b "[]"]
      lit_matches [of "[Opt 58, Star Space]" F l False "[]"]
    by (simp add: first_line_Nil ci_prefix_Nil del: rmatch.simps)
next
  case (Cons c cs)
  have head: "(rmatch F [Lit l, Opt 58, Star Space] False (c # cs) \<noteq> None)
      = ci_prefix F l (c # cs)"
    using lit_matches [of "[Opt 58, Star Space]" F l False "c # cs"]
      colon_tail [of F False "drop (length l) (c # cs)"]
    by (simp del: rmatch.simps)
  have line: "ci_prefix F l (c # cs) = ci_prefix F l (first_line (c # cs))"
    using ci_prefix_first_line [OF Cons.prems(1), of F "c # cs"] by simp
  show ?case
    using lazy_matches [of "[Lit l, Opt 58, Star Space]" F Dot b "c # cs"]
      Cons.IH [OF Cons.prems, of False] head line Cons.prems
    by (auto simp add: first_line_Cons ci_prefix_Nil simp del: rmatch.simps)
qed

lemma phrase_colon_head:
  "10 \<notin> set l \<Longrightarrow>
   (rmatch F [Lit l, LazyStar Dot, Lit [58], Star Space] False s \<noteq> None)
     = (ci_prefix F l (first_line s) \<and> 58 \<in> set (drop (length l) (first_line s)))"
  using lit_matches [of "[LazyStar Dot, Lit [58], Star Space]" F l False s]
    colon_on_line [of F False "drop (length l) s"]
    ci_prefix_first_line [of l F s] first_line_drop [of l F s]
  by (auto simp del: rmatch.simps)

lemma star_phrase_colon:
  "10 \<notin> set l \<Longrightarrow> l \<noteq> [] \<Longrightarrow>
   (rmatch F [Star Dot, Lit l, LazyStar Dot, Lit [58], Star Space] b s \<noteq> None)
     = phrase_then_colon F l (first_line s)"
proof (induction s arbitrary: b)
  case Nil
  then show ?case
    using star_matches [of "[Lit l, LazyStar Dot, Lit [58], Star Space]" F Dot b "[]"]
      phrase_colon_head [of l F "[]"]
    by (simp add: first_line_Nil ci_prefix_Nil del: rmatch.simps)
next
  case (Cons c cs)
  show ?case
    using star_matches [of "[Lit l, LazyStar Dot, Lit [58], Star Space]" F Dot b "c # cs"]
      Cons.IH [OF Cons.prems, of False] phrase_colon_head [OF Cons.prems(1), of F "c # cs"]
      Cons.prems
    by (auto simp add: first_line_Cons ci_prefix_Nil simp del: rmatch.simps)
qed

lemma lazy_phrase_colon:
  "10 \<notin> set l \<Longrightarrow> l \<noteq> [] \<Longrightarrow>
   (rmatch F [LazyStar Dot, Lit l, LazyStar Dot, Lit [58], Star Space] b s \<noteq> None)
     = phrase_then_colon F l (first_line s)"
proof (induction s arbitrary: b)
  case Nil
  then show ?case
    using lazy_matches [of "[Lit l, LazyStar Dot, Lit [58], Star Space]" F Dot b "[]"]
      phrase_colon_head [of l F "[]"]
    by (simp add: first_line_Nil ci_prefix_Nil del: rmatch.simps)
next
  case (Cons c cs)
  show ?case
    using lazy_matches [of "[Lit l, LazyStar Dot, Lit [58], Star Space]" F Dot b "c # cs"]
      Cons.IH [OF Cons.prems, of False] phrase_colon_head [OF Cons.prems(1), of F "c # cs"]
      Cons.prems
    by (auto simp add: first_line_Cons ci_prefix_Nil simp del: rmatch.simps)
qed

section \<open>The three patterns tied to the start of the text\<close>

lemma here_is_matches: "(rmatch F HERE_IS True t \<noteq> None) = here_is_preamble F t"
proof -
  have nl: "10 \<notin> set (ustr ''resume'')" "ustr ''resume'' \<noteq> []"
    by (simp_all add: ustr_def)
  have len: "length (ustr ''Here is'') = 7" "length (ustr ''Here'') = 4" "length (ustr ''s'') = 1"
    by (simp_all add: ustr_def)
  have "(rmatch F HERE_IS True t \<noteq> None)
      = (rmatch F (Alt (ustr ''Here is'') (ustr ''Here'' @ [39] @ ustr ''s'')
           # [LazyStar Dot, Lit (ustr ''resume''), Opt 58, Star Space]) True t \<noteq> None)"
    by (simp add: HERE_IS_def del: rmatch.simps(5-8))
  also have "\<dots> = here_is_preamble F t"
    using alt_matches [of "[LazyStar Dot, Lit (ustr ''resume''), Opt 58, Star Space]" F
        "ustr ''Here is''" "ustr ''Here'' @ [39] @ ustr ''s''" True t]
      phrase_on_line [OF nl, of F False]
    by (simp add: here_is_preamble_def len del: rmatch.simps)
  finally show ?thesis .
qed

lemma formatted_resume_matches:
  "(rmatch F FORMATTED_RESUME True t \<noteq> None) = formatted_resume_preamble F t"
proof -
  have nl: "10 \<notin> set (ustr ''formatted resume'')" "ustr ''formatted resume'' \<noteq> []"
    by (simp_all add: ustr_def)
  have "(rmatch F FORMATTED_RESUME True t \<noteq> None)
      = (rmatch F [Star Dot, Lit (ustr ''formatted resume''), LazyStar Dot, Lit [58], Star Space]
           True t \<noteq> None)"
    by (simp add: FORMATTED_RESUME_def del: rmatch.simps(4-8))
  with star_phrase_colon [OF nl, of F True t] show ?thesis
    by (simp add: formatted_resume_preamble_def del: rmatch.simps)
qed

lemma based_on_matches: "(rmatch F BASED_ON True t \<noteq> None) = based_on_preamble F t"
proof -
  have nl: "10 \<notin> set (ustr ''based on'')" "ustr ''based on'' \<noteq> []"
    by (simp_all add: ustr_def)
  have "(rmatch F BASED_ON True t \<noteq> None)
      = (rmatch F [LazyStar Dot, Lit (ustr ''based on''), LazyStar Dot, Lit [58], Star Space]
           True t \<noteq> None)"
    by (simp add: BASED_ON_def del: rmatch.simps(4-8))
  with lazy_phrase_colon [OF nl, of F True t] show ?thesis
    by (simp add: based_on_preamble_def del: rmatch.simps)
qed

section \<open>Substitution\<close>

lemma re_sub_from_length: "length (re_sub_from F r b s) \<le> length s"
  by (induction F r b s rule: re_sub_from.induct)
     (auto simp del: rmatch.simps split: option.splits)

lemma re_sub_from_same_length:
  "length (re_sub_from F r b s) = length s \<Longrightarrow> re_sub_from F r b s = s"
proof (induction F r b s rule: re_sub_from.induct)
  case (1 F r b)
  then show ?case by simp
next
  case (2 F r b c cs)
  show ?case
  proof (cases "rmatch F r b (c # cs)")
    case None
    with 2 show ?thesis by (simp del: rmatch.simps)
  next
    case (Some rest)
    show ?thesis
    proof (cases "length rest < length (c # cs)")
      case True
      with Some re_sub_from_length [of F r False rest] "2.prems" show ?thesis
        by (simp del: rmatch.simps)
    next
      case False
      with Some 2 show ?thesis by (simp del: rmatch.simps)
    qed
  qed
qed

lemma re_sub_length: "length (re_sub F r s) \<le> length s"
  by (simp add: re_sub_def re_sub_from_length)

lemma re_sub_same_length: "length (re_sub F r s) = length s \<Longrightarrow> re_sub F r s = s"
  by (simp add: re_sub_def re_sub_from_same_length)

lemma re_sub_from_anchored: "re_sub_from F (Bol # r) False s = s"
  by (induction s) simp_all

text \<open>A pattern tied to the start that takes at least one character: the text stays
  exactly when the pattern does not match at the start.\<close>

lemma re_sub_anchored:
  "0 < min_len r \<Longrightarrow> (re_sub F (Bol # r) t = t) = (rmatch F (Bol # r) True t = None)"
proof (cases t)
  case Nil
  assume "0 < min_len r"
  with rmatch_len [of F "Bol # r" True "[]"] Nil show ?thesis
    by (cases "rmatch F (Bol # r) True []") (auto simp add: re_sub_def simp del: rmatch.simps)
next
  case (Cons c cs)
  assume m: "0 < min_len r"
  show ?thesis
  proof (cases "rmatch F (Bol # r) True (c # cs)")
    case None
    with Cons show ?thesis
      by (simp add: re_sub_def re_sub_from_anchored del: rmatch.simps)
  next
    case (Some rest)
    with rmatch_len [of F "Bol # r" True "c # cs" rest] m
    have "length rest < length (c # cs)" by simp
    with Some Cons show ?thesis
      by (auto simp add: re_sub_def re_sub_from_anchored simp del: rmatch.simps)
  qed
qed

section \<open>The pattern of the last line\<close>

lemma takeWhile_all_append:
  "\<forall>x\<in>set xs. P x \<Longrightarrow> takeWhile P (xs @ ys) = xs @ takeWhile P ys"
  by (induction xs) auto

lemma last_line_plain: "10 \<notin> set s \<Longrightarrow> last_line s = s"
proof -
  assume "10 \<notin> set s"
  then have "takeWhile (\<lambda>c. c \<noteq> 10) (rev s) = rev s"
    by (auto simp: takeWhile_eq_all_conv)
  then show ?thesis by (simp only: last_line_def rev_rev_ident)
qed

lemma last_line_Cons:
  "last_line (c # cs) = (if 10 \<in> set cs then last_line cs else if c = 10 then cs else c # cs)"
proof (cases "10 \<in> set cs")
  case True
  then have "\<not> (\<forall>x\<in>set (rev cs). x \<noteq> 10)" by simp
  then have "takeWhile (\<lambda>c. c \<noteq> 10) (rev cs @ [c]) = takeWhile (\<lambda>c. c \<noteq> 10) (rev cs)"
    by (metis (mono_tags, lifting) takeWhile_append1)
  with True show ?thesis by (simp add: last_line_def)
next
  case False
  then have "\<forall>x\<in>set (rev cs). x \<noteq> 10" by auto
  then have "takeWhile (\<lambda>c. c \<noteq> 10) (rev cs @ [c])
      = rev cs @ takeWhile (\<lambda>c. c \<noteq> 10) [c]"
    by (rule takeWhile_all_append)
  with False show ?thesis by (simp add: last_line_def)
qed

lemma ci_prefix_no_newline:
  "10 \<notin> set l \<Longrightarrow> ci_prefix F l s \<Longrightarrow> 10 \<notin> set (take (length l) s)"
proof (induction l arbitrary: s)
  case Nil
  then show ?case by simp
next
  case (Cons p ps)
  show ?case
  proof (cases s)
    case Nil
    then show ?thesis by simp
  next
    case c: (Cons c cs)
    with Cons.prems ci_eq_newline [of p F] have "c \<noteq> 10" "ci_prefix F ps cs"
      by (auto simp: ci_prefix_Cons)
    with Cons.IH [of cs] Cons.prems c show ?thesis by simp
  qed
qed

lemma ci_prefix_plain:
  "10 \<notin> set l \<Longrightarrow> ci_prefix F l s \<Longrightarrow> (10 \<notin> set (drop (length l) s)) = (10 \<notin> set s)"
proof -
  assume "10 \<notin> set l" "ci_prefix F l s"
  then have "10 \<notin> set (take (length l) s)" by (rule ci_prefix_no_newline)
  moreover have "set s = set (take (length l) s) \<union> set (drop (length l) s)"
    by (metis append_take_drop_id set_append)
  ultimately show ?thesis by auto
qed

lemma dot_eol:
  "s = [] \<or> last s \<noteq> 10 \<Longrightarrow> (rmatch F [Star Dot, Eol] b s \<noteq> None) = (10 \<notin> set s)"
proof (induction s arbitrary: b)
  case Nil
  then show ?case by (simp add: star_Nil del: rmatch.simps(7))
next
  case (Cons c cs)
  then have cs: "cs = [] \<or> last cs \<noteq> 10" by (auto split: if_splits)
  from Cons.prems have "c # cs \<noteq> [10]" by auto
  then have e: "rmatch F [Eol] False (c # cs) = None" by simp
  show ?case
    using star_matches [of "[Eol]" F Dot b "c # cs"] e Cons.IH [OF cs, of False]
    by (auto simp del: rmatch.simps)
qed

lemma hope_matches:
  "u = [] \<or> last u \<noteq> 10 \<Longrightarrow>
   (rmatch F I_HOPE b u \<noteq> None)
     = (ci_prefix F (ustr ''I hope this helps'') u \<and> 10 \<notin> set u)"
proof -
  assume u: "u = [] \<or> last u \<noteq> 10"
  let ?l = "ustr ''I hope this helps''"
  have nl: "10 \<notin> set ?l" by (simp add: ustr_def)
  have d: "drop (length ?l) u = [] \<or> last (drop (length ?l) u) \<noteq> 10"
    using u by (cases "drop (length ?l) u = []") (auto simp: last_drop)
  have "(rmatch F I_HOPE b u \<noteq> None)
      = (ci_prefix F ?l u \<and> rmatch F [Star Dot, Eol] False (drop (length ?l) u) \<noteq> None)"
    using lit_matches [of "[Star Dot, Eol]" F ?l b u]
    by (simp add: I_HOPE_def del: rmatch.simps)
  also have "\<dots> = (ci_prefix F ?l u \<and> 10 \<notin> set (drop (length ?l) u))"
    using dot_eol [OF d, of F False] by (simp del: rmatch.simps)
  also have "\<dots> = (ci_prefix F ?l u \<and> 10 \<notin> set u)"
    using ci_prefix_plain [OF nl, of F u] by blast
  finally show ?thesis .
qed

lemma ci_occurs_head: "ci_prefix F l s \<Longrightarrow> ci_occurs F l s"
  by (cases s) simp_all

lemma hope_unchanged:
  "t = [] \<or> last t \<noteq> 10 \<Longrightarrow>
   (re_sub_from F I_HOPE b t = t) = (\<not> hope_trailer F t)"
proof (induction t arbitrary: b)
  case Nil
  then show ?case
    by (simp add: hope_trailer_def last_line_def ci_prefix_Nil ustr_def)
next
  case (Cons c cs)
  let ?l = "ustr ''I hope this helps''"
  have cs: "cs = [] \<or> last cs \<noteq> 10"
    using Cons.prems by (auto split: if_splits)
  have m: "0 < min_len I_HOPE"
    by (simp add: I_HOPE_def ustr_def)
  show ?case
  proof (cases "rmatch F I_HOPE b (c # cs)")
    case (Some rest)
    with rmatch_len [of F I_HOPE b "c # cs" rest] m have short: "length rest < length (c # cs)"
      by simp
    with Some have "re_sub_from F I_HOPE b (c # cs) = re_sub_from F I_HOPE False rest"
      by (simp del: rmatch.simps)
    with re_sub_from_length [of F I_HOPE False rest] short
    have "re_sub_from F I_HOPE b (c # cs) \<noteq> c # cs"
      by (metis leD length_Cons list.size(4))
    moreover from Some hope_matches [OF Cons.prems, of F b]
    have "ci_prefix F ?l (c # cs)" "10 \<notin> set (c # cs)"
      by auto
    then have "hope_trailer F (c # cs)"
      using last_line_plain [of "c # cs"] ci_occurs_head [of F ?l "c # cs"]
      by (simp add: hope_trailer_def)
    ultimately show ?thesis by simp
  next
    case None
    with hope_matches [OF Cons.prems, of F b]
    have no: "\<not> (ci_prefix F ?l (c # cs) \<and> 10 \<notin> set (c # cs))"
      by simp
    have "hope_trailer F (c # cs) = hope_trailer F cs"
    proof (cases "10 \<in> set cs")
      case True
      then show ?thesis by (simp add: hope_trailer_def last_line_Cons)
    next
      case False
      show ?thesis
      proof (cases "c = 10")
        case True
        with False last_line_plain [of cs] show ?thesis
          by (simp add: hope_trailer_def last_line_Cons)
      next
        case c: False
        with False no have "\<not> ci_prefix F ?l (c # cs)" by simp
        with False c last_line_plain [of cs] show ?thesis
          by (simp add: hope_trailer_def last_line_Cons)
      qed
    qed
    with None Cons.IH [OF cs, of False] show ?thesis
      by (simp del: rmatch.simps)
  qed
qed

section \<open>The cleanup leaves exactly the clean texts alone\<close>

lemma anchored_unchanged:
  "(re_sub F HERE_IS t = t) = (\<not> here_is_preamble F t)"
  "(re_sub F FORMATTED_RESUME t = t) = (\<not> formatted_resume_preamble F t)"
  "(re_sub F BASED_ON t = t) = (\<not> based_on_preamble F t)"
proof -
  have 1: "0 < min_len (tl HERE_IS)" "HERE_IS = Bol # tl HERE_IS"
    by (simp_all add: HERE_IS_def ustr_def)
  have 2: "0 < min_len (tl FORMATTED_RESUME)" "FORMATTED_RESUME = Bol # tl FORMATTED_RESUME"
    by (simp_all add: FORMATTED_RESUME_def ustr_def)
  have 3: "0 < min_len (tl BASED_ON)" "BASED_ON = Bol # tl BASED_ON"
    by (simp_all add: BASED_ON_def ustr_def)
  show "(re_sub F HERE_IS t = t) = (\<not> here_is_preamble F t)"
    using re_sub_anchored [OF 1(1), of F t] 1(2) here_is_matches [of F t] by auto
  show "(re_sub F FORMATTED_RESUME t = t) = (\<not> formatted_resume_preamble F t)"
    using re_sub_anchored [OF 2(1), of F t] 2(2) formatted_resume_matches [of F t] by auto
  show "(re_sub F BASED_ON t = t) = (\<not> based_on_preamble F t)"
    using re_sub_anchored [OF 3(1), of F t] 3(2) based_on_matches [of F t] by auto
qed

lemma cleanup_fixed:
  "py_strip t = t \<Longrightarrow> (cleanup F t = t) = already_clean F t"
proof
  assume t: "py_strip t = t" and a: "already_clean F t"
  have last: "t = [] \<or> last t \<noteq> 10"
    using py_strip_last [of t] t by simp
  from a have "re_sub F HERE_IS t = t" "re_sub F FORMATTED_RESUME t = t" "re_sub F BASED_ON t = t"
    by (simp_all add: anchored_unchanged already_clean_def)
  moreover from a have "re_sub F I_HOPE t = t"
    using hope_unchanged [OF last, of F True] by (simp add: already_clean_def re_sub_def)
  ultimately show "cleanup F t = t"
    using t by (simp add: cleanup_def)
next
  assume t: "py_strip t = t" and same: "cleanup F t = t"
  have last: "t = [] \<or> last t \<noteq> 10"
    using py_strip_last [of t] t by simp
  let ?s1 = "re_sub F HERE_IS t"
  let ?s2 = "re_sub F FORMATTED_RESUME ?s1"
  let ?s3 = "re_sub F I_HOPE ?s2"
  let ?s4 = "re_sub F BASED_ON ?s3"
  have c: "cleanup F t = py_strip ?s4"
    using t by (simp add: cleanup_def)
  have "length t = length (py_strip ?s4)"
    using same c by simp
  also have "\<dots> \<le> length ?s4" by (rule py_strip_length)
  finally have 4: "length t \<le> length ?s4" .
  have l4: "length ?s4 \<le> length ?s3" by (rule re_sub_length)
  have l3: "length ?s3 \<le> length ?s2" by (rule re_sub_length)
  have l2: "length ?s2 \<le> length ?s1" by (rule re_sub_length)
  have l1: "length ?s1 \<le> length t" by (rule re_sub_length)
  from 4 l4 l3 l2 l1 have "length ?s1 = length t" by simp
  then have s1: "?s1 = t" by (rule re_sub_same_length)
  from 4 l4 l3 l2 s1 have "length (re_sub F FORMATTED_RESUME t) = length t" by simp
  then have s2: "re_sub F FORMATTED_RESUME t = t" by (rule re_sub_same_length)
  from 4 l4 l3 s1 s2 have "length (re_sub F I_HOPE t) = length t" by simp
  then have s3: "re_sub F I_HOPE t = t" by (rule re_sub_same_length)
  from 4 l4 s1 s2 s3 have "length (re_sub F BASED_ON t) = length t" by simp
  then have s4: "re_sub F BASED_ON t = t" by (rule re_sub_same_length)
  from s3 have "\<not> hope_trailer F t"
    using hope_unchanged [OF last, of F True] by (simp add: re_sub_def)
  with s1 s2 s4 show "already_clean F t"
    by (simp add: anchored_unchanged already_clean_def)
qed

lemma cleanup_stripped: "py_strip (cleanup F s) = cleanup F s"
  by (simp add: cleanup_def py_strip_idem)

section \<open>The cleanup on examples\<close>

lemmas rx_eval = cleanup_def re_sub_def HERE_IS_def FORMATTED_RESUME_def I_HOPE_def BASED_ON_def
  ci_eq_def lower_ascii_def ascii_letter_def ustr_def py_strip_def py_lstrip_def py_rstrip_def
  isspace_def

lemmas words_eval = already_clean_def here_is_preamble_def formatted_resume_preamble_def
  hope_trailer_def based_on_preamble_def first_line_def last_line_def ci_prefix_def ci_eq_def
  lower_ascii_def ascii_letter_def ustr_def

lemma first_pass:
  "cleanup (\<lambda>p c. False) (ustr ''Here is resume: Here is resume: X'') = ustr ''Here is resume: X''"
  by (simp add: rx_eval)

lemma second_pass:
  "cleanup (\<lambda>p c. False) (ustr ''Here is resume: X'') = ustr ''X''"
  by (simp add: rx_eval)

lemma my_resume_pass:
  "cleanup (\<lambda>p c. False) (ustr ''Here is my resume: X'') = ustr ''X''"
  by (simp add: rx_eval)

lemma clean_X: "already_clean (\<lambda>p c. False) (ustr ''X'')"
  by (simp add: words_eval)

lemma not_clean_preamble: "\<not> already_clean (\<lambda>p c. False) (ustr ''Here is resume: X'')"
  by (simp add: words_eval)

section \<open>The result of the completion call\<close>

lemma get_fields_obj:
  "get_fields (JObj kvs) ks = Inr (map (\<lambda>k. case map_of kvs k of None \<Rightarrow> JStr [] | Some v \<Rightarrow> v) ks)"
  by (induction ks) auto

lemma prompt_obj: "create_resume_prompt data = Inr prompt \<Longrightarrow> \<exists>kvs. data = JObj kvs"
  by (cases data) (auto simp: create_resume_prompt_def PROMPT_FIELDS_def)

lemma py_getitem_Inr:
  "py_getitem x k = Inr v \<longleftrightarrow> (\<exists>kvs. x = JObj kvs \<and> map_of kvs k = Some v)"
  by (cases x) (auto split: option.splits)

lemma py_str_method_Inr: "py_str_method c = Inr s \<longleftrightarrow> c = JStr s"
  by (cases c) auto

lemma py_getitem0_obj:
  "py_getitem0 x = Inr (JObj ch) \<longleftrightarrow> (\<exists>xs. x = JArr (JObj ch # xs))"
proof (cases x)
  case (JStr s)
  then show ?thesis by (cases s) auto
next
  case (JArr xs)
  then show ?thesis by (cases xs) auto
qed auto

lemma choice_content_Some:
  "choice_content result = Inr (Some s) \<longleftrightarrow>
     (\<exists>kvs ch cs m. result = JObj kvs
        \<and> map_of kvs (ustr ''choices'') = Some (JArr (JObj ch # cs))
        \<and> map_of ch (ustr ''message'') = Some (JObj m)
        \<and> map_of m (ustr ''content'') = Some (JStr s))"
proof
  assume a: "choice_content result = Inr (Some s)"
  then obtain choices where c: "py_getitem result (ustr ''choices'') = Inr choices"
    by (auto simp: choice_content_def split: sum.splits bool.splits)
  with a obtain choice where c0: "py_getitem0 choices = Inr choice"
    by (auto simp: choice_content_def split: sum.splits bool.splits if_splits)
  with a c obtain message where m: "py_getitem choice (ustr ''message'') = Inr message"
    by (auto simp: choice_content_def split: sum.splits bool.splits if_splits)
  with a c c0 obtain content where ct: "py_getitem message (ustr ''content'') = Inr content"
    by (auto simp: choice_content_def split: sum.splits bool.splits if_splits)
  with a c c0 m have s: "py_str_method content = Inr s"
    by (auto simp: choice_content_def split: sum.splits bool.splits if_splits)
  from c obtain kvs where 1: "result = JObj kvs" "map_of kvs (ustr ''choices'') = Some choices"
    by (auto simp: py_getitem_Inr)
  from m obtain ch where 2: "choice = JObj ch" "map_of ch (ustr ''message'') = Some message"
    by (auto simp: py_getitem_Inr)
  from ct obtain mm where 3: "message = JObj mm" "map_of mm (ustr ''content'') = Some content"
    by (auto simp: py_getitem_Inr)
  from s have 4: "content = JStr s"
    by (simp add: py_str_method_Inr)
  from c0 2 obtain cs where 5: "choices = JArr (JObj ch # cs)"
    by (auto simp: py_getitem0_obj)
  from 1 2 3 4 5 show "\<exists>kvs ch cs m. result = JObj kvs
        \<and> map_of kvs (ustr ''choices'') = Some (JArr (JObj ch # cs))
        \<and> map_of ch (ustr ''message'') = Some (JObj m)
        \<and> map_of m (ustr ''content'') = Some (JStr s)"
    by blast
next
  assume "\<exists>kvs ch cs m. result = JObj kvs
        \<and> map_of kvs (ustr ''choices'') = Some (JArr (JObj ch # cs))
        \<and> map_of ch (ustr ''message'') = Some (JObj m)
        \<and> map_of m (ustr ''content'') = Some (JStr s)"
  then show "choice_content result = Inr (Some s)"
    by (auto simp: choice_content_def)
qed

lemma generate_resume_text_result:
  "create_resume_prompt data = Inr prompt \<Longrightarrow>
   generate_resume_text F post data =
     (case post prompt of
        Inl e \<Rightarrow> None
      | Inr response \<Rightarrow>
          (case json_body response of
             None \<Rightarrow> None
           | Some result \<Rightarrow>
               (case choice_content result of
                  Inr (Some content) \<Rightarrow> Some (cleanup F content)
                | _ \<Rightarrow> None)),
      [prompt])"
  by (auto simp: generate_resume_text_def generate_resume_text_try_def
        split: sum.splits option.splits)

lemma example_prompt:
  "create_resume_prompt
     (JObj [(ustr ''name'', JStr (ustr ''Jane Doe'')), (ustr ''email'', JStr (ustr ''jane@x.com''))])
   = Inr [JStr (ustr ''Jane Doe''), JStr [], JStr (ustr ''jane@x.com''), JStr [], JStr [], JStr [],
          JStr []]"
  by (simp add: create_resume_prompt_def PROMPT_FIELDS_def ustr_def)

section \<open>The check of the required fields\<close>

lemma required_missing_obj:
  "required_missing (JObj kvs) =
     Inr (kvs = []
          \<or> \<not> py_truthy (case map_of kvs (ustr ''name'') of None \<Rightarrow> JNull | Some v \<Rightarrow> v)
          \<or> \<not> py_truthy (case map_of kvs (ustr ''email'') of None \<Rightarrow> JNull | Some v \<Rightarrow> v))"
  by (simp add: required_missing_def)

lemma required_missing_falsy: "\<not> py_truthy data \<Longrightarrow> required_missing data = Inr True"
  by (simp add: required_missing_def)

lemma required_missing_False:
  "required_missing data = Inr False \<longleftrightarrow>
     (\<exists>kvs n e. data = JObj kvs \<and> map_of kvs (ustr ''name'') = Some n \<and> py_truthy n
        \<and> map_of kvs (ustr ''email'') = Some e \<and> py_truthy e)"
proof (cases data)
  case (JObj kvs)
  then show ?thesis
    by (auto simp: required_missing_obj split: option.splits)
qed (auto simp: required_missing_def)

lemma generate_resume_calls:
  "snd (generate_resume F post got) \<noteq> [] \<Longrightarrow> \<exists>data. got = Inr data \<and> required_missing data = Inr False"
  by (auto simp: generate_resume_def split: sum.splits bool.splits)

lemma generate_pdf_resume_calls:
  "snd (generate_pdf_resume F U M build_ok name_ok post got) \<noteq> [] \<Longrightarrow>
   \<exists>data. got = Inr data \<and> required_missing data = Inr False"
  by (auto simp: generate_pdf_resume_def split: sum.splits bool.splits)

text \<open>
  On a body that is a JSON object, or that counts as false, the check answers as the
  specification says, and the completion endpoint is called only after the check.
\<close>

lemma validation_on_mappings:
  "((\<not> py_truthy data
      \<or> (\<exists>kvs. data = JObj kvs
            \<and> ((\<forall>n. map_of kvs (ustr ''name'') = Some n \<longrightarrow> \<not> py_truthy n)
               \<or> (\<forall>e. map_of kvs (ustr ''email'') = Some e \<longrightarrow> \<not> py_truthy e))))
     \<longrightarrow> generate_resume F post (Inr data)
           = (JsonError (Text (ustr ''Name and email are required'')) 400, [])
         \<and> generate_pdf_resume F U M build_ok name_ok post (Inr data)
           = (JsonError (Text (ustr ''Name and email are required'')) 400, []))
   \<and> (snd (generate_resume F post got) \<noteq> [] \<or> snd (generate_pdf_resume F U M build_ok name_ok post got) \<noteq> []
     \<longrightarrow> (\<exists>kvs n e. got = Inr (JObj kvs)
            \<and> map_of kvs (ustr ''name'') = Some n \<and> py_truthy n
            \<and> map_of kvs (ustr ''email'') = Some e \<and> py_truthy e))"
proof (intro conjI impI)
  assume h: "\<not> py_truthy data
      \<or> (\<exists>kvs. data = JObj kvs
            \<and> ((\<forall>n. map_of kvs (ustr ''name'') = Some n \<longrightarrow> \<not> py_truthy n)
               \<or> (\<forall>e. map_of kvs (ustr ''email'') = Some e \<longrightarrow> \<not> py_truthy e)))"
  have m: "required_missing data = Inr True"
  proof (cases "py_truthy data")
    case False
    then show ?thesis by (rule required_missing_falsy)
  next
    case True
    with h obtain kvs where "data = JObj kvs"
      and "(\<forall>n. map_of kvs (ustr ''name'') = Some n \<longrightarrow> \<not> py_truthy n)
               \<or> (\<forall>e. map_of kvs (ustr ''email'') = Some e \<longrightarrow> \<not> py_truthy e)"
      by blast
    then show ?thesis
      by (auto simp: required_missing_obj split: option.splits)
  qed
  show "generate_resume F post (Inr data)
           = (JsonError (Text (ustr ''Name and email are required'')) 400, [])"
    using m by (simp add: generate_resume_def)
  show "generate_pdf_resume F U M build_ok name_ok post (Inr data)
           = (JsonError (Text (ustr ''Name and email are required'')) 400, [])"
    using m by (simp add: generate_pdf_resume_def)
next
  assume "snd (generate_resume F post got) \<noteq> [] \<or> snd (generate_pdf_resume F U M build_ok name_ok post got) \<noteq> []"
  then obtain data where "got = Inr data" and "required_missing data = Inr False"
    using generate_resume_calls generate_pdf_resume_calls by blast
  then show "\<exists>kvs n e. got = Inr (JObj kvs)
            \<and> map_of kvs (ustr ''name'') = Some n \<and> py_truthy n
            \<and> map_of kvs (ustr ''email'') = Some e \<and> py_truthy e"
    by (auto simp: required_missing_False)
qed

section \<open>Claims about the completion client\<close>

text \<open>
  C2, as stated, fails. A response with a non-empty \<open>choices\<close> array whose first choice
  has no \<open>message\<close> is none of the four failures of the claim, yet the call gives the failure
  value and no cleaned string. And the status code is never read: a response with status
  500 and a body of the expected shape gives the cleaned string.
\<close>

theorem completion_counterexample:
  "fst (generate_resume_text (\<lambda>p c. False)
     (\<lambda>prompt. Inr (Response 200 (Some (JObj [(ustr ''choices'', JArr [JObj []])]))))
     (JObj [(ustr ''name'', JStr (ustr ''Jane Doe'')), (ustr ''email'', JStr (ustr ''jane@x.com''))]))
   = None
   \<and> fst (generate_resume_text (\<lambda>p c. False)
     (\<lambda>prompt. Inr (Response 500 (Some
        (JObj [(ustr ''choices'',
                JArr [JObj [(ustr ''message'',
                             JObj [(ustr ''content'', JStr (ustr ''X''))])]])]))))
     (JObj [(ustr ''name'', JStr (ustr ''Jane Doe'')), (ustr ''email'', JStr (ustr ''jane@x.com''))]))
   = Some (ustr ''X'')"
proof -
  have "cleanup (\<lambda>p c. False) (ustr ''X'') = ustr ''X''"
    by (simp add: rx_eval)
  then show ?thesis
    by (simp add: generate_resume_text_result [OF example_prompt] choice_content_def)
qed

text \<open>
  C2, amended. The completion call returns in every case (its result is a value, the
  exception handler catches what the body raises). It gives the failure value when the
  request cannot be built, when the transport raises, when the body of the response is
  not JSON, when the parsed body is not an object with a non-empty \<open>choices\<close> array, and
  when the first choice is not an object whose \<open>message\<close> is an object with a string
  \<open>content\<close>. For a response with a 2xx status whose body has that shape it gives the
  cleaned content. The second component lists the calls of the completion endpoint.
\<close>

theorem completion_result:
  "(create_resume_prompt data = Inl e \<longrightarrow> generate_resume_text F post data = (None, []))
   \<and> (create_resume_prompt data = Inr prompt \<and> post prompt = Inl e
        \<longrightarrow> generate_resume_text F post data = (None, [prompt]))
   \<and> (create_resume_prompt data = Inr prompt \<and> post prompt = Inr (Response status None)
        \<longrightarrow> generate_resume_text F post data = (None, [prompt]))
   \<and> (create_resume_prompt data = Inr prompt \<and> post prompt = Inr (Response status (Some result))
        \<and> (\<forall>kvs c cs. \<not> (result = JObj kvs
                          \<and> map_of kvs (ustr ''choices'') = Some (JArr (c # cs))))
        \<longrightarrow> generate_resume_text F post data = (None, [prompt]))
   \<and> (create_resume_prompt data = Inr prompt
        \<and> post prompt = Inr (Response status (Some (JObj kvs)))
        \<and> map_of kvs (ustr ''choices'') = Some (JArr (c # cs))
        \<and> (\<forall>ch m s. \<not> (c = JObj ch \<and> map_of ch (ustr ''message'') = Some (JObj m)
                         \<and> map_of m (ustr ''content'') = Some (JStr s)))
        \<longrightarrow> generate_resume_text F post data = (None, [prompt]))
   \<and> (200 \<le> status \<and> status < 300
        \<and> create_resume_prompt data = Inr prompt
        \<and> post prompt = Inr (Response status (Some (JObj kvs)))
        \<and> map_of kvs (ustr ''choices'') = Some (JArr (JObj ch # cs))
        \<and> map_of ch (ustr ''message'') = Some (JObj m)
        \<and> map_of m (ustr ''content'') = Some (JStr s)
        \<longrightarrow> generate_resume_text F post data = (Some (cleanup F s), [prompt]))"
proof (intro conjI impI)
  assume "create_resume_prompt data = Inl e"
  then show "generate_resume_text F post data = (None, [])"
    by (simp add: generate_resume_text_def generate_resume_text_try_def)
next
  assume "create_resume_prompt data = Inr prompt \<and> post prompt = Inl e"
  then show "generate_resume_text F post data = (None, [prompt])"
    by (simp add: generate_resume_text_result)
next
  assume "create_resume_prompt data = Inr prompt \<and> post prompt = Inr (Response status None)"
  then show "generate_resume_text F post data = (None, [prompt])"
    by (simp add: generate_resume_text_result)
next
  assume a: "create_resume_prompt data = Inr prompt \<and> post prompt = Inr (Response status (Some result))
        \<and> (\<forall>kvs c cs. \<not> (result = JObj kvs
                          \<and> map_of kvs (ustr ''choices'') = Some (JArr (c # cs))))"
  then have "\<forall>s. choice_content result \<noteq> Inr (Some s)"
    by (auto simp: choice_content_Some)
  with a show "generate_resume_text F post data = (None, [prompt])"
    by (auto simp: generate_resume_text_result split: sum.splits option.splits)
next
  assume a: "create_resume_prompt data = Inr prompt
        \<and> post prompt = Inr (Response status (Some (JObj kvs)))
        \<and> map_of kvs (ustr ''choices'') = Some (JArr (c # cs))
        \<and> (\<forall>ch m s. \<not> (c = JObj ch \<and> map_of ch (ustr ''message'') = Some (JObj m)
                         \<and> map_of m (ustr ''content'') = Some (JStr s)))"
  then have "\<forall>s. choice_content (JObj kvs) \<noteq> Inr (Some s)"
    by (auto simp: choice_content_Some)
  with a show "generate_resume_text F post data = (None, [prompt])"
    by (auto simp: generate_resume_text_result split: sum.splits option.splits)
next
  assume a: "200 \<le> status \<and> status < 300
        \<and> create_resume_prompt data = Inr prompt
        \<and> post prompt = Inr (Response status (Some (JObj kvs)))
        \<and> map_of kvs (ustr ''choices'') = Some (JArr (JObj ch # cs))
        \<and> map_of ch (ustr ''message'') = Some (JObj m)
        \<and> map_of m (ustr ''content'') = Some (JStr s)"
  then have "choice_content (JObj kvs) = Inr (Some s)"
    by (auto simp: choice_content_Some)
  with a show "generate_resume_text F post data = (Some (cleanup F s), [prompt])"
    by (simp add: generate_resume_text_result)
qed

theorem completion_result_witness:
  "generate_resume_text (\<lambda>p c. False)
     (\<lambda>prompt. Inr (Response 200 (Some
        (JObj [(ustr ''choices'',
                JArr [JObj [(ustr ''message'',
                             JObj [(ustr ''content'', JStr (ustr '' Jane Doe ''))])]])]))))
     (JObj [(ustr ''name'', JStr (ustr ''Jane Doe'')), (ustr ''email'', JStr (ustr ''jane@x.com''))])
   = (Some (cleanup (\<lambda>p c. False) (ustr '' Jane Doe '')),
      [[JStr (ustr ''Jane Doe''), JStr [], JStr (ustr ''jane@x.com''), JStr [], JStr [], JStr [],
        JStr []]])
   \<and> generate_resume_text (\<lambda>p c. False) (\<lambda>prompt. Inl RequestException)
       (JObj [(ustr ''name'', JStr (ustr ''Jane Doe'')), (ustr ''email'', JStr (ustr ''jane@x.com''))])
   = (None,
      [[JStr (ustr ''Jane Doe''), JStr [], JStr (ustr ''jane@x.com''), JStr [], JStr [], JStr [],
        JStr []]])
   \<and> generate_resume_text (\<lambda>p c. False)
       (\<lambda>prompt. Inr (Response 401 (Some (JObj [(ustr ''error'', JStr (ustr ''bad key''))]))))
       (JObj [(ustr ''name'', JStr (ustr ''Jane Doe'')), (ustr ''email'', JStr (ustr ''jane@x.com''))])
   = (None,
      [[JStr (ustr ''Jane Doe''), JStr [], JStr (ustr ''jane@x.com''), JStr [], JStr [], JStr [],
        JStr []]])"
proof -
  let ?data = "JObj [(ustr ''name'', JStr (ustr ''Jane Doe'')), (ustr ''email'', JStr (ustr ''jane@x.com''))]"
  let ?prompt = "[JStr (ustr ''Jane Doe''), JStr [], JStr (ustr ''jane@x.com''), JStr [], JStr [], JStr [],
        JStr []]"
  let ?m = "[(ustr ''content'', JStr (ustr '' Jane Doe ''))]"
  let ?ch = "[(ustr ''message'', JObj ?m)]"
  let ?kvs = "[(ustr ''choices'', JArr [JObj ?ch])]"
  let ?err = "JObj [(ustr ''error'', JStr (ustr ''bad key''))]"
  have 1: "map_of ?kvs (ustr ''choices'') = Some (JArr (JObj ?ch # []))"
    and 2: "map_of ?ch (ustr ''message'') = Some (JObj ?m)"
    and 3: "map_of ?m (ustr ''content'') = Some (JStr (ustr '' Jane Doe ''))"
    by simp_all
  have 4: "\<forall>kvs c cs. \<not> (?err = JObj kvs \<and> map_of kvs (ustr ''choices'') = Some (JArr (c # cs)))"
    by (auto simp: ustr_def)
  have a: "generate_resume_text (\<lambda>p c. False) (\<lambda>prompt. Inr (Response 200 (Some (JObj ?kvs)))) ?data
      = (Some (cleanup (\<lambda>p c. False) (ustr '' Jane Doe '')), [?prompt])"
    using example_prompt 1 2 3
      completion_result [where data = "?data" and prompt = "?prompt" and F = "\<lambda>p c. False"
        and post = "\<lambda>prompt. Inr (Response 200 (Some (JObj ?kvs)))" and status = 200
        and kvs = "?kvs" and ch = "?ch" and cs = "[]" and m = "?m" and s = "ustr '' Jane Doe ''"]
    by simp
  have b: "generate_resume_text (\<lambda>p c. False) (\<lambda>prompt. Inl RequestException) ?data = (None, [?prompt])"
    using example_prompt
      completion_result [where data = "?data" and prompt = "?prompt" and F = "\<lambda>p c. False"
        and post = "\<lambda>prompt. Inl RequestException" and e = RequestException]
    by simp
  have c: "generate_resume_text (\<lambda>p c. False) (\<lambda>prompt. Inr (Response 401 (Some ?err))) ?data
      = (None, [?prompt])"
    using example_prompt 4
      completion_result [where data = "?data" and prompt = "?prompt" and F = "\<lambda>p c. False"
        and post = "\<lambda>prompt. Inr (Response 401 (Some ?err))" and status = 401 and result = "?err"]
    by simp
  from a b c show ?thesis by simp
qed

text \<open>
  C3, as stated, fails: a text with the preamble twice loses one preamble in each pass.
\<close>

theorem cleanup_twice_counterexample:
  "cleanup (\<lambda>p c. False) (cleanup (\<lambda>p c. False) (ustr ''Here is resume: Here is resume: X''))
   \<noteq> cleanup (\<lambda>p c. False) (ustr ''Here is resume: Here is resume: X'')"
  by (simp add: first_pass second_pass) (simp add: ustr_def)

text \<open>
  C3, amended. Applying the cleanup twice gives the same result as applying it once
  exactly when the once-cleaned text is already clean, that is, when none of the four
  steps finds anything in it: ignoring letter case, it does not start with \<open>Here is\<close> or
  \<open>Here's\<close> followed on its first line by \<open>resume\<close>; its first line has no
  \<open>formatted resume\<close> with a colon after it and no \<open>based on\<close> with a colon after it; and its
  last line has no \<open>I hope this helps\<close>. (So \<open>Here is my resume: X\<close> cleans to \<open>X\<close> and stays
  \<open>X\<close>, while a text with two preambles loses one in each pass.)
\<close>

theorem cleanup_idempotent_iff_clean:
  "(cleanup F (cleanup F s) = cleanup F s) = already_clean F (cleanup F s)"
  using cleanup_fixed [of "cleanup F s" F] cleanup_stripped [of F s] by simp

theorem cleanup_idempotent_iff_clean_witness:
  "cleanup (\<lambda>p c. False) (ustr ''Here is my resume: X'') = ustr ''X''
   \<and> already_clean (\<lambda>p c. False) (ustr ''X'')
   \<and> cleanup (\<lambda>p c. False) (cleanup (\<lambda>p c. False) (ustr ''Here is my resume: X''))
     = cleanup (\<lambda>p c. False) (ustr ''Here is my resume: X'')"
proof -
  have "already_clean (\<lambda>p c. False) (cleanup (\<lambda>p c. False) (ustr ''Here is my resume: X''))"
    by (simp only: my_resume_pass clean_X)
  then have "cleanup (\<lambda>p c. False) (cleanup (\<lambda>p c. False) (ustr ''Here is my resume: X''))
     = cleanup (\<lambda>p c. False) (ustr ''Here is my resume: X'')"
    using cleanup_idempotent_iff_clean [of "\<lambda>p c. False" "ustr ''Here is my resume: X''"]
    by blast
  with my_resume_pass clean_X show ?thesis by blast
qed

section \<open>Claims about the endpoints\<close>

text \<open>
  C8. A request whose body has no \<open>name\<close> or no \<open>email\<close> is to be answered with the
  validation error and status 400, before any call of the completion endpoint. The check
  at the head of both handlers does this for a body that is a JSON object, and for one
  that \<open>get_json\<close> returns as nothing (see \<open>validation_on_mappings\<close>), and no handler ever
  calls the completion endpoint before the check has passed. But the check misses two
  kinds of request. A body that is a non-empty JSON array has no \<open>name\<close> field; \<open>data.get\<close>
  raises \<open>AttributeError\<close> on it, and the handler answers with status 500. A request
  without a body that can be read as JSON makes \<open>get_json\<close> raise, and the handler again
  answers with status 500. In both cases no call is made.
\<close>

theorem validation_missed:
  "generate_resume (\<lambda>p c. False) (\<lambda>prompt. Inl RequestException) (Inr (JArr [JInt 1]))
     = (JsonError (StrOf AttributeError) 500, [])
   \<and> generate_pdf_resume (\<lambda>p c. False) (\<lambda>c. [c]) (\<lambda>t. False) (\<lambda>story. True) (\<lambda>n. True)
         (\<lambda>prompt. Inl RequestException) (Inr (JArr [JInt 1]))
     = (JsonError (StrOf AttributeError) 500, [])
   \<and> generate_resume (\<lambda>p c. False) (\<lambda>prompt. Inl RequestException) (Inl HTTPException)
     = (JsonError (StrOf HTTPException) 500, [])
   \<and> generate_pdf_resume (\<lambda>p c. False) (\<lambda>c. [c]) (\<lambda>t. False) (\<lambda>story. True) (\<lambda>n. True)
         (\<lambda>prompt. Inl RequestException) (Inl HTTPException)
     = (JsonError (StrOf HTTPException) 500, [])"
  by (simp add: generate_resume_def generate_pdf_resume_def required_missing_def)

end
